theory Spec2Isabelle
  imports Complex_Main "HOL-Library.Sublist"
begin

section \<open>JavaScript strings\<close>

text \<open>
  Strings are modelled as \<^typ>\<open>string\<close>, one \<^typ>\<open>char\<close> per code unit, for the
  code units \<open>U+0000\<close> to \<open>U+00FF\<close>. On these, \<open>trim\<close> strips the white space and
  line terminator characters (TAB, LF, VT, FF, CR, SPACE and NO-BREAK SPACE \<open>U+00A0\<close>),
  and \<open>toLowerCase\<close> maps \<open>A\<close>..\<open>Z\<close> and the capital letters \<open>U+00C0\<close>..\<open>U+00DE\<close>
  (all but the multiplication sign \<open>U+00D7\<close>) to the letter 32 places further on and
  leaves every other character alone.
\<close>

definition isWhiteSpace :: "char \<Rightarrow> bool" where
  "isWhiteSpace c = (of_char c \<in> {9, 10, 11, 12, 13, 32, 160 :: nat})"

definition trim :: "string \<Rightarrow> string" where
  "trim s = rev (dropWhile isWhiteSpace (rev (dropWhile isWhiteSpace s)))"

definition toLowerCase_char :: "char \<Rightarrow> char" where
  "toLowerCase_char c =
     (let n = (of_char c :: nat)
      in if (65 \<le> n \<and> n \<le> 90) \<or> (192 \<le> n \<and> n \<le> 222 \<and> n \<noteq> 215)
         then char_of (n + 32) else c)"

definition toLowerCase :: "string \<Rightarrow> string" where
  "toLowerCase s = map toLowerCase_char s"

text \<open>
  \<open>hay.indexOf(needle, start)\<close>: the least position \<open>\<ge> start\<close> at which \<open>needle\<close>
  occurs; JavaScript's \<open>-1\<close> is \<open>None\<close>. \<open>indexOf_from hay needle i\<close> searches the
  suffix \<open>hay\<close> that begins at position \<open>i\<close> of the whole string.
\<close>

fun indexOf_from :: "string \<Rightarrow> string \<Rightarrow> nat \<Rightarrow> nat option" where
  "indexOf_from [] needle i = (if needle = [] then Some i else None)"
| "indexOf_from (c # hay) needle i =
     (if prefix needle (c # hay) then Some i else indexOf_from hay needle (Suc i))"

definition indexOf :: "string \<Rightarrow> string \<Rightarrow> nat \<Rightarrow> nat option" where
  "indexOf hay needle start = indexOf_from (drop start hay) needle (min start (length hay))"

definition includes_str :: "string \<Rightarrow> string \<Rightarrow> bool" where
  "includes_str hay needle = (indexOf hay needle 0 \<noteq> None)"

text \<open>\<open>s.substring(a, b)\<close> clamps both indices to the length and swaps them if needed;
  \<open>s.substring(a)\<close> runs to the end.\<close>

definition substring :: "string \<Rightarrow> nat \<Rightarrow> nat \<Rightarrow> string" where
  "substring s a b =
     (let a' = min a (length s); b' = min b (length s);
          lo = min a' b'; hi = max a' b'
      in take (hi - lo) (drop lo s))"

definition substring_from :: "string \<Rightarrow> nat \<Rightarrow> string" where
  "substring_from s a = drop (min a (length s)) s"

section \<open>JavaScript numbers\<close>

text \<open>
  Numbers are idealised as reals, with \<open>None\<close> for \<open>NaN\<close> (what arithmetic on
  \<open>undefined\<close> gives); rounding and overflow of IEEE doubles are not modelled.
\<close>

type_synonym jsnum = "real option"

definition jmul :: "jsnum \<Rightarrow> jsnum \<Rightarrow> jsnum" where
  "jmul x y = (case (x, y) of (Some a, Some b) \<Rightarrow> Some (a * b) | _ \<Rightarrow> None)"

definition jadd :: "jsnum \<Rightarrow> jsnum \<Rightarrow> jsnum" where
  "jadd x y = (case (x, y) of (Some a, Some b) \<Rightarrow> Some (a + b) | _ \<Rightarrow> None)"

definition Math_sqrt :: "jsnum \<Rightarrow> jsnum" where
  "Math_sqrt x = (case x of Some a \<Rightarrow> if a < 0 then None else Some (sqrt a) | None \<Rightarrow> None)"

definition Math_abs :: "jsnum \<Rightarrow> jsnum" where
  "Math_abs x = map_option abs x"

definition atan2 :: "real \<Rightarrow> real \<Rightarrow> real" where
  "atan2 y x =
     (if 0 < x then arctan (y / x)
      else if x < 0 then (if 0 \<le> y then arctan (y / x) + pi else arctan (y / x) - pi)
      else if 0 < y then pi / 2 else if y < 0 then - (pi / 2) else 0)"

definition Math_atan2 :: "jsnum \<Rightarrow> jsnum \<Rightarrow> jsnum" where
  "Math_atan2 y x = (case (y, x) of (Some b, Some a) \<Rightarrow> Some (atan2 b a) | _ \<Rightarrow> None)"

text \<open>\<open>a % b\<close> on integers: the remainder takes the sign of the dividend.\<close>

definition js_rem :: "int \<Rightarrow> int \<Rightarrow> int" where
  "js_rem a b = sgn a * (\<bar>a\<bar> mod \<bar>b\<bar>)"

text \<open>\<open>arr[i]\<close>: reading past the end of an array gives \<open>undefined\<close>, which
  arithmetic turns into \<open>NaN\<close>.\<close>

definition elem_at :: "real list \<Rightarrow> nat \<Rightarrow> jsnum" where
  "elem_at arr i = (if i < length arr then Some (arr ! i) else None)"

section \<open>The overlay DOM\<close>

text \<open>
  A text layer (\<open>.textLayer\<close>) holds the overlay spans of one page; the document is the
  list of text layers in page order. The child nodes of an overlay span are text nodes
  and highlight spans. A highlight span carries its object identity (a number handed
  out by \<open>next_node\<close> whenever an element is created), its class (\<open>search-highlight\<close>
  or \<open>search-current\<close>: \<open>highlightCurrentMatch\<close> only ever swaps one for the other),
  its \<open>data-search-match\<close> attribute and its text content.
\<close>

datatype hl_class = search_highlight | search_current

datatype node =
    TextNode string
  | Mark (mark_id: nat) (className: hl_class) (searchMatch: nat) (mark_text: string)

fun node_text :: "node \<Rightarrow> string" where
  "node_text (TextNode t) = t"
| "node_text (Mark i c k t) = t"

fun is_mark :: "node \<Rightarrow> bool" where
  "is_mark (TextNode t) = False"
| "is_mark (Mark i c k t) = True"

definition textContent :: "node list \<Rightarrow> string" where
  "textContent cs = concat (map node_text cs)"

definition mark_ids :: "node list \<Rightarrow> nat list" where
  "mark_ids cs = map mark_id (filter is_mark cs)"

text \<open>\<open>parent.normalize()\<close>: empty text nodes go, adjacent text nodes are merged.\<close>

fun normalize :: "node list \<Rightarrow> node list" where
  "normalize [] = []"
| "normalize (TextNode a # TextNode b # cs) = normalize (TextNode (a @ b) # cs)"
| "normalize (TextNode a # cs) = (if a = [] then normalize cs else TextNode a # normalize cs)"
| "normalize (Mark i c k t # cs) = Mark i c k t # normalize cs"

text \<open>
  An overlay span: its child nodes and the attributes and styles that \<open>createTextLayer\<close>
  computes. A style that is a number followed by \<open>px\<close> or \<open>rad\<close> is kept as that
  number; styles that are the same constant on every span (colour, cursor, white-space,
  user-select, ...) are left out.
\<close>

record span =
  children :: "node list"
  span_dir :: string
  style_left :: jsnum
  style_top :: jsnum
  style_fontSize :: jsnum
  style_fontFamily :: string
  style_transform :: "jsnum option"
  style_width :: "jsnum option"
  style_height :: "jsnum option"

type_synonym dom = "span list list"

definition all_nodes :: "dom \<Rightarrow> node list" where
  "all_nodes doc = concat (map (\<lambda>layer. concat (map children layer)) doc)"

text \<open>\<open>document.querySelectorAll('.search-highlight, .search-current')\<close>: every
  highlight span, in document order, as a list of element identities.\<close>

definition highlights :: "dom \<Rightarrow> nat list" where
  "highlights doc = mark_ids (all_nodes doc)"

text \<open>\<open>document.querySelector('[data-search-match="k"]')\<close>: the first such element.\<close>

definition querySelector_match :: "dom \<Rightarrow> nat \<Rightarrow> nat option" where
  "querySelector_match doc k =
     map_option mark_id (find (\<lambda>n. is_mark n \<and> searchMatch n = k) (all_nodes doc))"

section \<open>The search manager\<close>

record SearchMatch =
  element :: nat
  pageIndex :: nat
  spanIndex :: nat
  match_text :: string

text \<open>
  The state the search module reads and writes: its own fields, the viewer's \<open>pdfDoc\<close>
  (\<open>None\<close> for \<open>null\<close>, else the number of pages) and \<open>currentPage\<close>, the search
  box, the result counter (\<open>None\<close> for the empty text, \<open>Some (i, n)\<close> for
  "\<open>i\<close> of \<open>n\<close>"), the two navigation buttons, the text layers, the allocator
  of element identities, and the element last handed to \<open>scrollIntoView\<close>.
\<close>

record SearchManager =
  pdfDoc :: "nat option"
  currentPage :: nat
  searchInput_value :: string
  searchMatches :: "SearchMatch list"
  currentSearchIndex :: int
  document :: dom
  next_node :: nat
  searchResults_textContent :: "(int \<times> nat) option"
  searchPrev_disabled :: bool
  searchNext_disabled :: bool
  scroll_target :: "nat option"

text \<open>The constructor, applied to the page as it finds it: it sets the two fields of
  the module; looking up the DOM elements and attaching the listeners changes nothing
  that is modelled here.\<close>

definition constructor :: "SearchManager \<Rightarrow> SearchManager" where
  "constructor env = env\<lparr>searchMatches := [], currentSearchIndex := - 1\<rparr>"

definition updateSearchResults :: "SearchManager \<Rightarrow> SearchManager" where
  "updateSearchResults s =
     (if length (searchMatches s) = 0
      then s\<lparr>searchResults_textContent := None,
             searchPrev_disabled := True, searchNext_disabled := True\<rparr>
      else s\<lparr>searchResults_textContent :=
               Some (currentSearchIndex s + 1, length (searchMatches s)),
             searchPrev_disabled := False, searchNext_disabled := False\<rparr>)"

subsection \<open>clearSearchHighlights\<close>

fun unwrap :: "nat \<Rightarrow> node \<Rightarrow> node" where
  "unwrap h (TextNode t) = TextNode t"
| "unwrap h (Mark i c k t) = (if i = h then TextNode t else Mark i c k t)"

text \<open>One iteration of the \<open>forEach\<close>, seen from an overlay span: if the span is
  the parent of highlight \<open>h\<close>, the highlight is replaced by a text node holding its
  text and the span is normalised.\<close>

definition unwrap_highlight :: "nat \<Rightarrow> span \<Rightarrow> span" where
  "unwrap_highlight h sp =
     (if h \<in> set (mark_ids (children sp))
      then sp\<lparr>children := normalize (map (unwrap h) (children sp))\<rparr>
      else sp)"

definition clearSearchHighlights :: "SearchManager \<Rightarrow> SearchManager" where
  "clearSearchHighlights s =
     s\<lparr>document :=
         foldl (\<lambda>doc h. map (map (unwrap_highlight h)) doc) (document s)
           (highlights (document s))\<rparr>"

subsection \<open>highlightCurrentMatch, scrollToCurrentMatch\<close>

fun demote :: "node \<Rightarrow> node" where
  "demote (TextNode t) = TextNode t"
| "demote (Mark i c k t) = Mark i search_highlight k t"

fun promote :: "nat \<Rightarrow> node \<Rightarrow> node" where
  "promote h (TextNode t) = TextNode t"
| "promote h (Mark i c k t) = (if i = h then Mark i search_current k t else Mark i c k t)"

definition map_nodes :: "(node \<Rightarrow> node) \<Rightarrow> dom \<Rightarrow> dom" where
  "map_nodes f doc = map (map (\<lambda>sp. sp\<lparr>children := map f (children sp)\<rparr>)) doc"

definition highlightCurrentMatch :: "SearchManager \<Rightarrow> SearchManager" where
  "highlightCurrentMatch s =
     (let doc1 = map_nodes demote (document s);
          doc2 =
            (if 0 \<le> currentSearchIndex s \<and> currentSearchIndex s < int (length (searchMatches s))
             then (case querySelector_match doc1 (nat (currentSearchIndex s)) of
                     Some e \<Rightarrow> map_nodes (promote e) doc1
                   | None \<Rightarrow> doc1)
             else doc1)
      in updateSearchResults (s\<lparr>document := doc2\<rparr>))"

text \<open>\<open>pdfViewer.goToPage\<close>, as far as the state above goes (it also refreshes the
  page navigation buttons and scrolls the page into view).\<close>

definition goToPage :: "nat \<Rightarrow> SearchManager \<Rightarrow> SearchManager" where
  "goToPage pageNum s =
     (case pdfDoc s of
        None \<Rightarrow> s
      | Some numPages \<Rightarrow>
          if pageNum < 1 \<or> pageNum > numPages then s else s\<lparr>currentPage := pageNum\<rparr>)"

definition scrollToCurrentMatch :: "SearchManager \<Rightarrow> SearchManager" where
  "scrollToCurrentMatch s =
     (if 0 \<le> currentSearchIndex s \<and> currentSearchIndex s < int (length (searchMatches s))
      then (let currentMatch = searchMatches s ! nat (currentSearchIndex s)
            in case querySelector_match (document s) (nat (currentSearchIndex s)) of
                 Some e \<Rightarrow> (goToPage (pageIndex currentMatch) s)\<lparr>scroll_target := Some e\<rparr>
               | None \<Rightarrow> s)
      else s)"

subsection \<open>Navigation\<close>

definition goToNextMatch :: "SearchManager \<Rightarrow> SearchManager" where
  "goToNextMatch s =
     (if length (searchMatches s) = 0 then s
      else scrollToCurrentMatch (highlightCurrentMatch
             (s\<lparr>currentSearchIndex :=
                  js_rem (currentSearchIndex s + 1) (int (length (searchMatches s)))\<rparr>)))"

definition goToPreviousMatch :: "SearchManager \<Rightarrow> SearchManager" where
  "goToPreviousMatch s =
     (if length (searchMatches s) = 0 then s
      else scrollToCurrentMatch (highlightCurrentMatch
             (s\<lparr>currentSearchIndex :=
                  (if currentSearchIndex s \<le> 0 then int (length (searchMatches s)) - 1
                   else currentSearchIndex s - 1)\<rparr>)))"

subsection \<open>performSearch\<close>

text \<open>
  \<open>span.innerHTML = newContent.innerHTML\<close> serialises the children of \<open>newContent\<close>
  and parses the result into fresh nodes. Serialising writes adjacent text nodes one
  after the other and escapes \<open>&\<close>, \<open><\<close>, \<open>>\<close> and \<open>U+00A0\<close>; parsing undoes the
  escapes, but before that it normalises newlines (a CR LF pair and a lone CR become one
  LF) and while building the tree it ignores every \<open>U+0000\<close>. \<open>html_text\<close> is what
  a piece of text has become after the round trip.
\<close>

fun normalize_newlines :: "string \<Rightarrow> string" where
  "normalize_newlines [] = []"
| "normalize_newlines [c] = [if c = CHR 0x0D then CHR 0x0A else c]"
| "normalize_newlines (c # d # cs) =
     (if c = CHR 0x0D
      then (if d = CHR 0x0A then CHR 0x0A # normalize_newlines cs
            else CHR 0x0A # normalize_newlines (d # cs))
      else c # normalize_newlines (d # cs))"

definition html_text :: "string \<Rightarrow> string" where
  "html_text t = filter (\<lambda>c. c \<noteq> CHR 0x00) (normalize_newlines t)"

fun html_node :: "node \<Rightarrow> node" where
  "html_node (TextNode t) = TextNode (html_text t)"
| "html_node (Mark i c k t) = Mark i c k (html_text t)"

text \<open>Every element the parser builds is a new object.\<close>

fun fresh_copy :: "nat \<Rightarrow> node list \<Rightarrow> node list \<times> nat" where
  "fresh_copy n [] = ([], n)"
| "fresh_copy n (TextNode t # cs) =
     (let (cs', n') = fresh_copy n cs in (TextNode t # cs', n'))"
| "fresh_copy n (Mark i c k t # cs) =
     (let (cs', n') = fresh_copy (Suc n) cs in (Mark n c k t # cs', n'))"

text \<open>
  What arrives under the span: adjacent text is one text node (the first
  \<open>normalize\<close>), its characters are those the parser keeps, and a text that the parser
  leaves empty is no node at all (the second \<open>normalize\<close>).
\<close>

definition innerHTML_copy :: "nat \<Rightarrow> node list \<Rightarrow> node list \<times> nat" where
  "innerHTML_copy n cs = fresh_copy n (normalize (map html_node (normalize cs)))"

text \<open>
  The body of the inner \<open>forEach\<close> for one overlay span. The accumulator is
  \<open>this.searchMatches\<close> and the allocator. The \<open>while\<close> loop of the source leaves
  through its \<open>break\<close> at the end of the first iteration, so its body runs once, for
  the first occurrence, or not at all.
\<close>

definition search_span ::
  "string \<Rightarrow> nat \<Rightarrow> nat \<Rightarrow> span \<Rightarrow> SearchMatch list \<times> nat
     \<Rightarrow> span \<times> (SearchMatch list \<times> nat)" where
  "search_span searchTerm pageIdx spanIdx sp acc =
     (let searchTermLower = toLowerCase searchTerm;
          text = toLowerCase (textContent (children sp));
          originalText = textContent (children sp)
      in if includes_str text searchTermLower then
           (case indexOf text searchTermLower 0 of
              None \<Rightarrow> (sp, acc)
            | Some index \<Rightarrow>
                (let beforeText = substring originalText 0 index;
                     matchText = substring originalText index (index + length searchTerm);
                     afterText = substring_from originalText (index + length searchTerm);
                     highlightSpan = snd acc;
                     newContent =
                       (if beforeText \<noteq> [] then [TextNode beforeText] else []) @
                       [Mark highlightSpan search_highlight (length (fst acc)) matchText] @
                       (if afterText \<noteq> [] then [TextNode afterText] else []);
                     matches = fst acc @
                       [\<lparr>element = highlightSpan, pageIndex = pageIdx + 1,
                         spanIndex = spanIdx, match_text = matchText\<rparr>];
                     (cs, n) = innerHTML_copy (Suc highlightSpan) newContent
                 in (sp\<lparr>children := cs\<rparr>, (matches, n))))
         else (sp, acc))"

text \<open>\<open>textSpans.forEach((span, spanIndex) => ...)\<close> over the spans of one text layer.\<close>

fun search_spans ::
  "string \<Rightarrow> nat \<Rightarrow> nat \<Rightarrow> span list \<Rightarrow> SearchMatch list \<times> nat
     \<Rightarrow> span list \<times> (SearchMatch list \<times> nat)" where
  "search_spans searchTerm pageIdx spanIdx [] acc = ([], acc)"
| "search_spans searchTerm pageIdx spanIdx (sp # sps) acc =
     (let (sp', acc') = search_span searchTerm pageIdx spanIdx sp acc;
          (sps', acc'') = search_spans searchTerm pageIdx (Suc spanIdx) sps acc'
      in (sp' # sps', acc''))"

text \<open>\<open>textLayers.forEach((textLayer, pageIndex) => ...)\<close> over the text layers.\<close>

fun search_layers ::
  "string \<Rightarrow> nat \<Rightarrow> dom \<Rightarrow> SearchMatch list \<times> nat
     \<Rightarrow> dom \<times> (SearchMatch list \<times> nat)" where
  "search_layers searchTerm pageIdx [] acc = ([], acc)"
| "search_layers searchTerm pageIdx (layer # layers) acc =
     (let (layer', acc') = search_spans searchTerm pageIdx 0 layer acc;
          (layers', acc'') = search_layers searchTerm (Suc pageIdx) layers acc'
      in (layer' # layers', acc''))"

text \<open>
  \<open>clearSearchHighlights\<close> has removed every highlight span before the text layers are
  walked (lemma \<open>clearSearchHighlights_no_marks\<close> below), so
  \<open>textLayer.querySelectorAll('span')\<close> is the list of the layer's overlay spans.
\<close>

definition performSearch :: "string \<Rightarrow> SearchManager \<Rightarrow> SearchManager" where
  "performSearch searchTerm s =
     (let s1 = (clearSearchHighlights s)\<lparr>searchMatches := [], currentSearchIndex := - 1\<rparr>
      in if pdfDoc s1 = None \<or> searchTerm = [] then s1
         else
           (let (doc, (matches, n)) = search_layers searchTerm 0 (document s1) ([], next_node s1);
                s2 = s1\<lparr>document := doc, searchMatches := matches, next_node := n\<rparr>;
                s3 = (if length (searchMatches s2) > 0
                      then highlightCurrentMatch (s2\<lparr>currentSearchIndex := 0\<rparr>)
                      else s2)
            in updateSearchResults s3))"

subsection \<open>handleSearch, clearSearch\<close>

definition handleSearch :: "SearchManager \<Rightarrow> SearchManager" where
  "handleSearch s =
     (let searchTerm = trim (searchInput_value s)
      in if length searchTerm = 0
         then updateSearchResults
                ((clearSearchHighlights s)\<lparr>searchMatches := [], currentSearchIndex := - 1\<rparr>)
         else if length searchTerm < 2 then s
         else performSearch searchTerm s)"

definition clearSearch :: "SearchManager \<Rightarrow> SearchManager" where
  "clearSearch s =
     updateSearchResults
       ((clearSearchHighlights (s\<lparr>searchInput_value := []\<rparr>))
          \<lparr>searchMatches := [], currentSearchIndex := - 1\<rparr>)"

section \<open>The selection tracker\<close>

text \<open>
  The fields of the viewer that \<open>handleSelectionChange\<close> writes: \<open>lastSelectedText\<close>
  (\<open>None\<close> for \<open>null\<close>), the number shown in the selection counter, and the
  \<open>display\<close> style of the selection info box and of the context menu.
\<close>

record PDFViewer =
  lastSelectedText :: "string option"
  selectionCount_textContent :: nat
  selectionInfo_display :: string
  contextMenu_display :: string

definition getSelectedText :: "string \<Rightarrow> string" where
  "getSelectedText selection = trim selection"

definition hideContextMenu :: "PDFViewer \<Rightarrow> PDFViewer" where
  "hideContextMenu v = v\<lparr>contextMenu_display := ''none''\<rparr>"

text \<open>
  \<open>handleSelectionChange\<close> only starts a 50 ms timer. \<open>selection_settled\<close> is the
  timer's callback; its first argument is what \<open>window.getSelection().toString()\<close>
  returns when the callback runs. Timers with the same delay fire in the order in which
  they were started, so a sequence of selection-change events is the list of these
  strings, one per callback.
\<close>

definition selection_settled :: "string \<Rightarrow> PDFViewer \<Rightarrow> PDFViewer" where
  "selection_settled selection v =
     (let selectedText = getSelectedText selection
      in if length selectedText > 0
         then v\<lparr>lastSelectedText := Some selectedText,
                selectionCount_textContent := length selectedText,
                selectionInfo_display := ''block''\<rparr>
         else hideContextMenu
                (v\<lparr>selectionCount_textContent := 0, selectionInfo_display := ''none''\<rparr>))"

definition selection_events :: "string list \<Rightarrow> PDFViewer \<Rightarrow> PDFViewer" where
  "selection_events selections v = foldl (\<lambda>v sel. selection_settled sel v) v selections"

section \<open>The text overlay builder\<close>

record TextItem =
  str :: "string option"
  dir :: "string option"
  transform :: "real list option"
  width :: jsnum
  height :: jsnum
  fontName :: "string option"

record PageViewport =
  vp_width :: real
  vp_height :: real
  vp_transform :: "real list"

datatype exn = TypeError

text \<open>
  Modelled from the spec: \<open>pdfjsLib.Util.transform\<close> belongs to the PDF.js library,
  which is not among the sources. The spec has it "compose the two affine transforms
  (viewport \<open>\<circ>\<close> item) via standard 2\<times>3 matrix multiplication". The entries are read
  by index, so a missing second matrix (\<open>undefined\<close>) raises a \<open>TypeError\<close> and an
  entry missing from an array becomes \<open>NaN\<close>.
\<close>

definition Util_transform :: "real list \<Rightarrow> real list option \<Rightarrow> exn + jsnum list" where
  "Util_transform m1 m2opt =
     (case m2opt of
        None \<Rightarrow> Inl TypeError
      | Some m2 \<Rightarrow>
          Inr [jadd (jmul (elem_at m1 0) (elem_at m2 0)) (jmul (elem_at m1 2) (elem_at m2 1)),
               jadd (jmul (elem_at m1 1) (elem_at m2 0)) (jmul (elem_at m1 3) (elem_at m2 1)),
               jadd (jmul (elem_at m1 0) (elem_at m2 2)) (jmul (elem_at m1 2) (elem_at m2 3)),
               jadd (jmul (elem_at m1 1) (elem_at m2 2)) (jmul (elem_at m1 3) (elem_at m2 3)),
               jadd (jadd (jmul (elem_at m1 0) (elem_at m2 4)) (jmul (elem_at m1 2) (elem_at m2 5)))
                    (elem_at m1 4),
               jadd (jadd (jmul (elem_at m1 1) (elem_at m2 4)) (jmul (elem_at m1 3) (elem_at m2 5)))
                    (elem_at m1 5)])"

definition num_at :: "jsnum list \<Rightarrow> nat \<Rightarrow> jsnum" where
  "num_at arr i = (if i < length arr then arr ! i else None)"

text \<open>\<open>x || d\<close> on an optional string: \<open>undefined\<close> and the empty string are falsy.\<close>

definition or_default :: "string option \<Rightarrow> string \<Rightarrow> string" where
  "or_default x d = (case x of None \<Rightarrow> d | Some v \<Rightarrow> if v = [] then d else v)"

text \<open>A number is truthy unless it is \<open>0\<close>, \<open>NaN\<close> or \<open>undefined\<close>.\<close>

definition truthy :: "jsnum \<Rightarrow> bool" where
  "truthy x = (case x of None \<Rightarrow> False | Some a \<Rightarrow> a \<noteq> 0)"

definition text_children :: "string option \<Rightarrow> node list" where
  "text_children x = (case x of None \<Rightarrow> [] | Some v \<Rightarrow> if v = [] then [] else [TextNode v])"

text \<open>The body of the \<open>try\<close> block, up to \<open>appendChild\<close>: the span it builds, or
  the exception it raises.\<close>

definition create_span :: "PageViewport \<Rightarrow> TextItem \<Rightarrow> exn + span" where
  "create_span viewport textItem =
     (case Util_transform (vp_transform viewport) (transform textItem) of
        Inl e \<Rightarrow> Inl e
      | Inr tf \<Rightarrow>
          (let left = num_at tf 4;
               top = num_at tf 5;
               fontHeight = Math_sqrt (jadd (jmul (num_at tf 2) (num_at tf 2))
                                            (jmul (num_at tf 3) (num_at tf 3)));
               angle = Math_atan2 (num_at tf 1) (num_at tf 0)
           in Inr \<lparr>children = text_children (str textItem),
                    span_dir = or_default (dir textItem) ''ltr'',
                    style_left = left,
                    style_top = top,
                    style_fontSize = fontHeight,
                    style_fontFamily = or_default (fontName textItem) ''sans-serif'',
                    style_transform =
                      (case Math_abs angle of
                         Some r \<Rightarrow> if r > 1 / 100 then Some angle else None
                       | None \<Rightarrow> None),
                    style_width =
                      (if truthy (width textItem) \<and> truthy (height textItem)
                       then Some (Math_abs (jadd (jmul (num_at tf 0) (width textItem))
                                                 (jmul (num_at tf 2) (height textItem))))
                       else None),
                    style_height =
                      (if truthy (width textItem) \<and> truthy (height textItem)
                       then Some (Math_abs (jadd (jmul (num_at tf 1) (width textItem))
                                                 (jmul (num_at tf 3) (height textItem))))
                       else None)\<rparr>))"

text \<open>\<open>!textItem.str || textItem.str.trim() === ''\<close>: the item is passed over.\<close>

definition blank :: "TextItem \<Rightarrow> bool" where
  "blank textItem = (case str textItem of None \<Rightarrow> True | Some t \<Rightarrow> t = [] \<or> trim t = [])"

text \<open>
  The text layer container: its child spans, its size, and, next to it, what the
  builder wrote with \<open>console.warn\<close> (the items whose \<open>try\<close> block raised).
\<close>

record TextLayer =
  layer_children :: "span list"
  layer_width :: real
  layer_height :: real
  console_warn :: "(exn \<times> TextItem) list"

text \<open>The \<open>for\<close> loop over \<open>textItems\<close>.\<close>

fun build_loop :: "PageViewport \<Rightarrow> TextItem list \<Rightarrow> TextLayer \<Rightarrow> TextLayer" where
  "build_loop viewport [] container = container"
| "build_loop viewport (textItem # textItems) container =
     (if blank textItem then build_loop viewport textItems container
      else case create_span viewport textItem of
             Inr sp \<Rightarrow>
               build_loop viewport textItems
                 (container\<lparr>layer_children := layer_children container @ [sp]\<rparr>)
           | Inl e \<Rightarrow>
               build_loop viewport textItems
                 (container\<lparr>console_warn := console_warn container @ [(e, textItem)]\<rparr>))"

text \<open>\<open>createTextLayer\<close>; its first argument is \<open>textContent.items\<close>, \<open>None\<close> when
  \<open>textContent\<close> or its \<open>items\<close> is missing.\<close>

definition createTextLayer ::
  "TextItem list option \<Rightarrow> TextLayer \<Rightarrow> PageViewport \<Rightarrow> TextLayer" where
  "createTextLayer content container viewport =
     (case content of
        None \<Rightarrow> container
      | Some textItems \<Rightarrow>
          build_loop viewport textItems
            (container\<lparr>layer_children := [],
                       layer_width := vp_width viewport,
                       layer_height := vp_height viewport\<rparr>))"

section \<open>Properties the specification names\<close>

text \<open>The text of every overlay node, page by page, node by node.\<close>

definition page_texts :: "dom \<Rightarrow> string list list" where
  "page_texts doc = map (map (\<lambda>sp. textContent (children sp))) doc"

text \<open>The highlight spans of the document, in document order.\<close>

definition marks :: "dom \<Rightarrow> node list" where
  "marks doc = filter is_mark (all_nodes doc)"

text \<open>What identifies a highlight span apart from its class: its identity, its
  \<open>data-search-match\<close> attribute and its text.\<close>

definition mark_info :: "node \<Rightarrow> nat \<times> nat \<times> string" where
  "mark_info n = (mark_id n, searchMatch n, mark_text n)"

text \<open>The invariant of the search module: the current index is \<open>-1\<close> exactly when
  there is no match, and otherwise it is a position of the match list.\<close>

definition search_inv :: "SearchManager \<Rightarrow> bool" where
  "search_inv s =
     ((currentSearchIndex s = - 1) = (searchMatches s = []) \<and>
      (searchMatches s \<noteq> [] \<longrightarrow>
         0 \<le> currentSearchIndex s \<and> currentSearchIndex s < int (length (searchMatches s))))"

text \<open>
  The search as the specification describes it, on the texts alone. The first
  case-insensitive occurrence of the term in a text is the least position at which the
  lower-cased term begins in the lower-cased text.
\<close>

definition first_occurrence :: "string \<Rightarrow> string \<Rightarrow> nat option" where
  "first_occurrence term t =
     find (\<lambda>i. prefix (toLowerCase term) (drop i (toLowerCase t))) [0..<Suc (length t)]"

text \<open>One record (page number, node index, matched substring) for every node that
  contains the term, in node order; then page by page.\<close>

definition spec_node_matches :: "string \<Rightarrow> nat \<Rightarrow> nat \<times> string \<Rightarrow> (nat \<times> nat \<times> string) list" where
  "spec_node_matches term p jt =
     (case first_occurrence term (snd jt) of
        None \<Rightarrow> []
      | Some i \<Rightarrow> [(p + 1, fst jt, take (length term) (drop i (snd jt)))])"

definition spec_page_matches :: "string \<Rightarrow> nat \<times> string list \<Rightarrow> (nat \<times> nat \<times> string) list" where
  "spec_page_matches term pts =
     concat (map (spec_node_matches term (fst pts)) (enumerate 0 (snd pts)))"

definition spec_matches :: "string \<Rightarrow> string list list \<Rightarrow> (nat \<times> nat \<times> string) list" where
  "spec_matches term pages = concat (map (spec_page_matches term) (enumerate 0 pages))"

definition match_info :: "SearchMatch \<Rightarrow> nat \<times> nat \<times> string" where
  "match_info m = (pageIndex m, spanIndex m, match_text m)"

text \<open>The highlight spans that a run of new matches leaves in the document when the
  first of them is match number \<open>k\<close>: the re-parsed copy of each stored element.\<close>

fun live_marks :: "nat \<Rightarrow> SearchMatch list \<Rightarrow> node list" where
  "live_marks k [] = []"
| "live_marks k (m # ms) =
     Mark (Suc (element m)) search_highlight k (html_text (match_text m)) #
     live_marks (Suc k) ms"

text \<open>The identities of the stored elements of a run of new matches when the allocator
  stands at \<open>n\<close>: every match takes two, one for the stored element and one for its
  re-parsed copy.\<close>

fun elements_from :: "nat \<Rightarrow> SearchMatch list \<Rightarrow> bool" where
  "elements_from n [] = True"
| "elements_from n (m # ms) = (element m = n \<and> elements_from (Suc (Suc n)) ms)"

text \<open>A text that the round trip through \<open>innerHTML\<close> leaves as it is: no carriage
  return and no \<open>U+0000\<close> in it.\<close>

definition html_safe :: "string \<Rightarrow> bool" where
  "html_safe t = (CHR 0x0D \<notin> set t \<and> CHR 0x00 \<notin> set t)"

text \<open>The text of a node after a search for the term and the clearing of the
  highlights: as before where the term does not occur, and otherwise the three segments
  before, match and after, each as the parser has left it.\<close>

definition reparsed :: "string \<Rightarrow> string \<Rightarrow> string" where
  "reparsed term t =
     (case first_occurrence term t of
        None \<Rightarrow> t
      | Some i \<Rightarrow>
          html_text (take i t) @ html_text (take (length term) (drop i t)) @
          html_text (drop (i + length term) t))"



text \<open>The same state, with every stored \<open>element\<close> reference replaced.\<close>

definition replace_elements :: "(SearchMatch \<Rightarrow> nat) \<Rightarrow> SearchManager \<Rightarrow> SearchManager" where
  "replace_elements f s = s\<lparr>searchMatches := map (\<lambda>m. m\<lparr>element := f m\<rparr>) (searchMatches s)\<rparr>"

text \<open>The font size as the specification words it: \<open>sqrt(b\<^sup>2 + d\<^sup>2)\<close> of the composed
  matrix \<open>[a, b, c, d, e, f]\<close>.\<close>

definition spec_fontSize :: "real list \<Rightarrow> real" where
  "spec_fontSize m = sqrt ((m ! 1)\<^sup>2 + (m ! 3)\<^sup>2)"

text \<open>A text item whose text is not the empty string.\<close>

definition nonempty_item :: "TextItem \<Rightarrow> bool" where
  "nonempty_item textItem = (case str textItem of None \<Rightarrow> False | Some t \<Rightarrow> t \<noteq> [])"

text \<open>What one text item adds to the text layer: its span, or nothing.\<close>

definition span_of :: "PageViewport \<Rightarrow> TextItem \<Rightarrow> span option" where
  "span_of viewport textItem =
     (if blank textItem then None
      else case create_span viewport textItem of Inr sp \<Rightarrow> Some sp | Inl e \<Rightarrow> None)"

section \<open>Example inputs\<close>

definition example_span :: "string \<Rightarrow> span" where
  "example_span t =
     \<lparr>children = [TextNode t], span_dir = ''ltr'', style_left = Some 0, style_top = Some 0,
      style_fontSize = Some 12, style_fontFamily = ''sans-serif'', style_transform = None,
      style_width = None, style_height = None\<rparr>"

definition example_match :: "nat \<Rightarrow> nat \<Rightarrow> nat \<Rightarrow> string \<Rightarrow> SearchMatch" where
  "example_match e p i t = \<lparr>element = e, pageIndex = p, spanIndex = i, match_text = t\<rparr>"

definition example_manager :: "dom \<Rightarrow> SearchMatch list \<Rightarrow> int \<Rightarrow> SearchManager" where
  "example_manager doc ms i =
     \<lparr>pdfDoc = Some 2, currentPage = 1, searchInput_value = [], searchMatches = ms,
      currentSearchIndex = i, document = doc, next_node = 100,
      searchResults_textContent = None, searchPrev_disabled = True,
      searchNext_disabled = True, scroll_target = None\<rparr>"

definition example_item :: "string \<Rightarrow> real list option \<Rightarrow> TextItem" where
  "example_item t m =
     \<lparr>str = Some t, dir = Some ''ltr'', transform = m, width = Some 30, height = Some 12,
      fontName = Some ''g_d0_f1''\<rparr>"

definition example_viewport :: PageViewport where
  "example_viewport = \<lparr>vp_width = 612, vp_height = 792, vp_transform = [1, 0, 0, 1, 0, 0]\<rparr>"

definition example_container :: TextLayer where
  "example_container =
     \<lparr>layer_children = [], layer_width = 0, layer_height = 0, console_warn = []\<rparr>"

text \<open>A two-page document: nothing on page 1 contains "cat", two nodes of page 2 do,
  the second of them twice.\<close>

definition example_doc :: dom where
  "example_doc =
     [[example_span ''Hello'', example_span ''World''],
      [example_span ''Cat nap'', example_span ''concat cat'']]"

definition example_loaded :: SearchManager where
  "example_loaded = example_manager example_doc [] (- 1)"

text \<open>The state after searching it for "cat", with a single character typed next.\<close>

definition example_found :: SearchManager where
  "example_found = (performSearch ''cat'' example_loaded)\<lparr>searchInput_value := '' c''\<rparr>"

section \<open>Basic facts about the search manager\<close>


lemma updateSearchResults_fields [simp]:
  "searchMatches (updateSearchResults s) = searchMatches s"
  "currentSearchIndex (updateSearchResults s) = currentSearchIndex s"
  "document (updateSearchResults s) = document s"
  "next_node (updateSearchResults s) = next_node s"
  "pdfDoc (updateSearchResults s) = pdfDoc s"
  by (simp_all add: updateSearchResults_def)

lemma highlightCurrentMatch_fields [simp]:
  "searchMatches (highlightCurrentMatch s) = searchMatches s"
  "currentSearchIndex (highlightCurrentMatch s) = currentSearchIndex s"
  "next_node (highlightCurrentMatch s) = next_node s"
  "pdfDoc (highlightCurrentMatch s) = pdfDoc s"
  by (simp_all add: highlightCurrentMatch_def Let_def)

lemma goToPage_fields [simp]:
  "searchMatches (goToPage p s) = searchMatches s"
  "currentSearchIndex (goToPage p s) = currentSearchIndex s"
  "document (goToPage p s) = document s"
  "next_node (goToPage p s) = next_node s"
  "pdfDoc (goToPage p s) = pdfDoc s"
  by (simp_all add: goToPage_def split: option.splits)

lemma scrollToCurrentMatch_fields [simp]:
  "searchMatches (scrollToCurrentMatch s) = searchMatches s"
  "currentSearchIndex (scrollToCurrentMatch s) = currentSearchIndex s"
  "document (scrollToCurrentMatch s) = document s"
  "next_node (scrollToCurrentMatch s) = next_node s"
  "pdfDoc (scrollToCurrentMatch s) = pdfDoc s"
  by (simp_all add: scrollToCurrentMatch_def Let_def split: option.splits)

lemma clearSearchHighlights_fields [simp]:
  "searchMatches (clearSearchHighlights s) = searchMatches s"
  "currentSearchIndex (clearSearchHighlights s) = currentSearchIndex s"
  "next_node (clearSearchHighlights s) = next_node s"
  "pdfDoc (clearSearchHighlights s) = pdfDoc s"
  "searchInput_value (clearSearchHighlights s) = searchInput_value s"
  by (simp_all add: clearSearchHighlights_def)

lemma js_rem_nonneg: "0 \<le> a \<Longrightarrow> 0 < b \<Longrightarrow> js_rem a b = a mod b"
  by (cases "a = 0") (simp_all add: js_rem_def)

lemma goToNextMatch_matches [simp]: "searchMatches (goToNextMatch s) = searchMatches s"
  by (simp add: goToNextMatch_def)

lemma goToPreviousMatch_matches [simp]: "searchMatches (goToPreviousMatch s) = searchMatches s"
  by (simp add: goToPreviousMatch_def)

lemma goToNextMatch_index:
  "searchMatches s \<noteq> [] \<Longrightarrow>
   currentSearchIndex (goToNextMatch s) =
     js_rem (currentSearchIndex s + 1) (int (length (searchMatches s)))"
  by (simp add: goToNextMatch_def)

lemma goToPreviousMatch_index:
  "searchMatches s \<noteq> [] \<Longrightarrow>
   currentSearchIndex (goToPreviousMatch s) =
     (if currentSearchIndex s \<le> 0 then int (length (searchMatches s)) - 1
      else currentSearchIndex s - 1)"
  by (simp add: goToPreviousMatch_def)

lemma goToNextMatch_funpow_matches [simp]:
  "searchMatches ((goToNextMatch ^^ k) s) = searchMatches s"
  by (induction k) simp_all

lemma goToNextMatch_funpow_index:
  assumes "searchMatches s \<noteq> []" "0 \<le> currentSearchIndex s"
  shows "currentSearchIndex ((goToNextMatch ^^ k) s) =
           (currentSearchIndex s + int k) mod int (length (searchMatches s))
         \<or> k = 0"
proof (induction k)
  case 0
  then show ?case by simp
next
  case (Suc k)
  let ?n = "int (length (searchMatches s))"
  have n: "0 < ?n" using assms by simp
  have nn: "0 \<le> currentSearchIndex ((goToNextMatch ^^ k) s)"
    using Suc assms n by (cases "k = 0") (auto)
  have "currentSearchIndex ((goToNextMatch ^^ Suc k) s) =
          (currentSearchIndex ((goToNextMatch ^^ k) s) + 1) mod ?n"
    using assms nn n by (simp add: goToNextMatch_index js_rem_nonneg)
  also have "\<dots> = (currentSearchIndex s + int (Suc k)) mod ?n"
  proof (cases "k = 0")
    case True then show ?thesis by simp
  next
    case False
    with Suc have "currentSearchIndex ((goToNextMatch ^^ k) s) = (currentSearchIndex s + int k) mod ?n"
      by simp
    then have "(currentSearchIndex ((goToNextMatch ^^ k) s) + 1) mod ?n =
               ((currentSearchIndex s + int k) mod ?n + 1) mod ?n" by simp
    also have "\<dots> = (currentSearchIndex s + int k + 1) mod ?n"
      by (rule mod_add_left_eq)
    finally show ?thesis by (simp add: ac_simps)
  qed
  finally show ?case by simp
qed

section \<open>Navigation\<close>

text \<open>
  C4. With \<open>N \<ge> 1\<close> matches and the current index at any position \<open>0 \<le> i < N\<close> of the
  match list, \<open>goToNextMatch\<close> moves the index to \<open>(i + 1) mod N\<close>,
  \<open>goToPreviousMatch\<close> moves it to \<open>N - 1\<close> when \<open>i = 0\<close> and to \<open>i - 1\<close> otherwise,
  and \<open>N\<close> calls of \<open>goToNextMatch\<close> bring the index back to \<open>i\<close>.
\<close>

theorem navigation_cyclic:
  assumes "length (searchMatches s) = N" and "1 \<le> N"
      and "0 \<le> currentSearchIndex s" and "currentSearchIndex s < int N"
  shows "currentSearchIndex (goToNextMatch s) = (currentSearchIndex s + 1) mod int N
       \<and> currentSearchIndex (goToPreviousMatch s) =
           (if currentSearchIndex s = 0 then int N - 1 else currentSearchIndex s - 1)
       \<and> currentSearchIndex ((goToNextMatch ^^ N) s) = currentSearchIndex s"
proof -
  have ne: "searchMatches s \<noteq> []" using assms by auto
  have a: "currentSearchIndex (goToNextMatch s) = (currentSearchIndex s + 1) mod int N"
    using assms ne by (simp add: goToNextMatch_index js_rem_nonneg)
  have b: "currentSearchIndex (goToPreviousMatch s) =
           (if currentSearchIndex s = 0 then int N - 1 else currentSearchIndex s - 1)"
    using assms ne by (simp add: goToPreviousMatch_index)
  have c: "currentSearchIndex ((goToNextMatch ^^ N) s) = currentSearchIndex s"
    using goToNextMatch_funpow_index [OF ne assms(3), of N] assms by simp
  from a b c show ?thesis by simp
qed

theorem navigation_cyclic_witness:
  "length (searchMatches (example_manager []
      [example_match 0 1 0 ''a'', example_match 2 1 1 ''a'', example_match 4 2 0 ''a''] 2)) = 3
   \<and> currentSearchIndex (goToNextMatch (example_manager []
      [example_match 0 1 0 ''a'', example_match 2 1 1 ''a'', example_match 4 2 0 ''a''] 2)) = 0
   \<and> currentSearchIndex (goToPreviousMatch (example_manager []
      [example_match 0 1 0 ''a'', example_match 2 1 1 ''a'', example_match 4 2 0 ''a''] 2)) = 1
   \<and> currentSearchIndex ((goToNextMatch ^^ 3) (example_manager []
      [example_match 0 1 0 ''a'', example_match 2 1 1 ''a'', example_match 4 2 0 ''a''] 2)) = 2"
  using navigation_cyclic [of "example_manager []
      [example_match 0 1 0 ''a'', example_match 2 1 1 ''a'', example_match 4 2 0 ''a''] 2" 3]
  by (simp add: example_manager_def)

section \<open>Clearing the highlights\<close>

lemma mark_ids_normalize [simp]: "mark_ids (normalize cs) = mark_ids cs"
  by (induction cs rule: normalize.induct) (simp_all add: mark_ids_def)

lemma textContent_normalize [simp]: "textContent (normalize cs) = textContent cs"
  by (induction cs rule: normalize.induct) (simp_all add: textContent_def)

lemma mark_ids_unwrap: "mark_ids (map (unwrap h) cs) = filter (\<lambda>i. i \<noteq> h) (mark_ids cs)"
proof (induction cs)
  case Nil
  then show ?case by (simp add: mark_ids_def)
next
  case (Cons c cs)
  then show ?case by (cases c) (auto simp: mark_ids_def)
qed

lemma textContent_unwrap [simp]: "textContent (map (unwrap h) cs) = textContent cs"
proof (induction cs)
  case Nil
  then show ?case by simp
next
  case (Cons c cs)
  then show ?case by (cases c) (auto simp: textContent_def)
qed

lemma mark_ids_unwrap_highlight:
  "mark_ids (children (unwrap_highlight h sp)) = filter (\<lambda>i. i \<noteq> h) (mark_ids (children sp))"
proof (cases "h \<in> set (mark_ids (children sp))")
  case True
  then show ?thesis by (simp add: unwrap_highlight_def mark_ids_unwrap)
next
  case False
  then have "filter (\<lambda>i. i \<noteq> h) (mark_ids (children sp)) = mark_ids (children sp)"
    by (induction "mark_ids (children sp)") (auto simp: filter_id_conv)
  with False show ?thesis by (simp add: unwrap_highlight_def)
qed

lemma textContent_unwrap_highlight [simp]:
  "textContent (children (unwrap_highlight h sp)) = textContent (children sp)"
  by (simp add: unwrap_highlight_def)

lemma mark_ids_append [simp]: "mark_ids (xs @ ys) = mark_ids xs @ mark_ids ys"
  by (simp add: mark_ids_def)

lemma mark_ids_concat: "mark_ids (concat xss) = concat (map mark_ids xss)"
  by (induction xss) (simp_all add: mark_ids_def)

lemma highlights_step:
  "highlights (map (map (unwrap_highlight h)) doc) = filter (\<lambda>i. i \<noteq> h) (highlights doc)"
  by (simp add: highlights_def all_nodes_def mark_ids_concat filter_concat comp_def
      mark_ids_unwrap_highlight map_concat)

lemma page_texts_step [simp]:
  "page_texts (map (map (unwrap_highlight h)) doc) = page_texts doc"
  by (simp add: page_texts_def comp_def)

lemma highlights_foldl:
  "highlights (foldl (\<lambda>doc h. map (map (unwrap_highlight h)) doc) doc hs) =
     filter (\<lambda>i. i \<notin> set hs) (highlights doc)"
proof (induction hs arbitrary: doc)
  case Nil
  then show ?case by simp
next
  case (Cons h hs)
  show ?case by (simp add: Cons.IH highlights_step conj_commute)
qed

lemma page_texts_foldl [simp]:
  "page_texts (foldl (\<lambda>doc h. map (map (unwrap_highlight h)) doc) doc hs) = page_texts doc"
  by (induction hs arbitrary: doc) simp_all

lemma length_foldl_unwrap [simp]:
  "length (foldl (\<lambda>doc h. map (map (unwrap_highlight h)) doc) doc hs) = length doc"
  by (induction hs arbitrary: doc) simp_all

lemma clearSearchHighlights_no_marks [simp]:
  "highlights (document (clearSearchHighlights s)) = []"
  by (simp add: clearSearchHighlights_def highlights_foldl)

lemma clearSearchHighlights_texts [simp]:
  "page_texts (document (clearSearchHighlights s)) = page_texts (document s)"
  by (simp add: clearSearchHighlights_def)

lemma marks_empty_iff: "marks doc = [] \<longleftrightarrow> highlights doc = []"
  by (simp add: marks_def highlights_def mark_ids_def)

section \<open>The string search\<close>

lemma find_map: "find P (map f xs) = map_option f (find (\<lambda>x. P (f x)) xs)"
  by (induction xs) simp_all

lemma indexOf_from_find:
  "indexOf_from hay needle i =
     map_option (\<lambda>k. k + i) (find (\<lambda>k. prefix needle (drop k hay)) [0..<Suc (length hay)])"
proof (induction hay arbitrary: i)
  case Nil
  then show ?case by simp
next
  case (Cons c hay)
  have upt: "[0..<Suc (Suc (length hay))] = 0 # map Suc [0..<Suc (length hay)]"
    by (simp only: map_Suc_upt upt_conv_Cons [of 0 "Suc (Suc (length hay))"] zero_less_Suc)
  show ?case
  proof (cases "prefix needle (c # hay)")
    case True
    then show ?thesis by (simp only: upt list.size) (simp add: upt del: upt_Suc)
  next
    case False
    have "indexOf_from (c # hay) needle i = indexOf_from hay needle (Suc i)"
      using False by simp
    also have "\<dots> = map_option (\<lambda>k. k + Suc i)
        (find (\<lambda>k. prefix needle (drop k hay)) [0..<Suc (length hay)])"
      by (rule Cons.IH)
    also have "\<dots> = map_option (\<lambda>k. k + i)
        (find (\<lambda>k. prefix needle (drop k (c # hay))) [0..<Suc (length (c # hay))])"
      using False by (simp add: upt find_map option.map_comp comp_def del: upt_Suc)
    finally show ?thesis .
  qed
qed

lemma length_toLowerCase [simp]: "length (toLowerCase t) = length t"
  by (simp add: toLowerCase_def)

lemma indexOf_first_occurrence:
  "indexOf (toLowerCase t) (toLowerCase term) 0 = first_occurrence term t"
  by (simp add: indexOf_def indexOf_from_find first_occurrence_def option.map_ident del: upt_Suc)

lemma first_occurrence_bound:
  assumes "first_occurrence term t = Some i"
  shows "i + length term \<le> length t"
proof -
  from assms have p: "prefix (toLowerCase term) (drop i (toLowerCase t))"
    and r: "i \<in> set [0..<Suc (length t)]"
    unfolding first_occurrence_def find_Some_iff by (auto simp del: upt_Suc)
  from p have "length (toLowerCase term) \<le> length (drop i (toLowerCase t))"
    by (rule prefix_length_le)
  moreover from r have "i \<le> length t" by auto
  ultimately show ?thesis by simp
qed

section \<open>Searching one overlay span\<close>

lemma html_text_Nil [simp]: "html_text [] = []"
  by (simp add: html_text_def)



lemma html_safe_append [simp]: "html_safe (xs @ ys) = (html_safe xs \<and> html_safe ys)"
  by (auto simp add: html_safe_def)





lemma substring_simps:
  assumes "i + L \<le> length t"
  shows "substring t 0 i = take i t"
    and "substring t i (i + L) = take L (drop i t)"
    and "substring_from t (i + L) = drop (i + L) t"
  using assms by (simp_all add: substring_def substring_from_def Let_def min_def max_def)

lemma innerHTML_copy_highlight:
  "innerHTML_copy k
     ((if b \<noteq> [] then [TextNode b] else []) @ [Mark e c m t] @
      (if a \<noteq> [] then [TextNode a] else [])) =
   ((if html_text b \<noteq> [] then [TextNode (html_text b)] else []) @
      [Mark k c m (html_text t)] @
      (if html_text a \<noteq> [] then [TextNode (html_text a)] else []), Suc k)"
  by (simp add: innerHTML_copy_def)

lemma search_span_eq:
  "search_span term p j sp (ms, n) =
     (case first_occurrence term (textContent (children sp)) of
        None \<Rightarrow> (sp, (ms, n))
      | Some i \<Rightarrow>
          (sp\<lparr>children :=
               (if html_text (take i (textContent (children sp))) \<noteq> []
                then [TextNode (html_text (take i (textContent (children sp))))] else []) @
               [Mark (Suc n) search_highlight (length ms)
                  (html_text (take (length term) (drop i (textContent (children sp)))))] @
               (if html_text (drop (i + length term) (textContent (children sp))) \<noteq> []
                then [TextNode (html_text (drop (i + length term) (textContent (children sp))))]
                else [])\<rparr>,
           (ms @ [\<lparr>element = n, pageIndex = p + 1, spanIndex = j,
                   match_text = take (length term) (drop i (textContent (children sp)))\<rparr>],
            Suc (Suc n))))"
proof (cases "first_occurrence term (textContent (children sp))")
  case None
  then show ?thesis
    by (simp add: search_span_def includes_str_def indexOf_first_occurrence)
next
  case (Some i)
  note b = first_occurrence_bound [OF Some]
  show ?thesis
    unfolding search_span_def Let_def includes_str_def indexOf_first_occurrence Some
    by (simp only: substring_simps [OF b] innerHTML_copy_highlight option.simps
        fst_conv snd_conv prod.case if_True not_None_eq simp_thms)
qed

section \<open>Searching the text layers\<close>

lemma live_marks_append:
  "live_marks k (xs @ ys) = live_marks k xs @ live_marks (k + length xs) ys"
  by (induction xs arbitrary: k) simp_all

lemma elements_from_append:
  "elements_from n (xs @ ys) = (elements_from n xs \<and> elements_from (n + 2 * length xs) ys)"
  by (induction xs arbitrary: n) simp_all

lemma textContent_highlight:
  "textContent ((if b \<noteq> [] then [TextNode b] else []) @ [Mark k c m t] @
                (if a \<noteq> [] then [TextNode a] else [])) = b @ t @ a"
  by (simp add: textContent_def)

lemma search_spans_char:
  assumes "\<forall>sp \<in> set sps. filter is_mark (children sp) = []"
  shows "\<exists>sps' new.
     search_spans term p j sps (ms, n) = (sps', (ms @ new, n + 2 * length new)) \<and>
     map (\<lambda>sp. textContent (children sp)) sps' =
       map (\<lambda>sp. reparsed term (textContent (children sp))) sps \<and>
     map match_info new =
       concat (map (spec_node_matches term p)
                 (enumerate j (map (\<lambda>sp. textContent (children sp)) sps))) \<and>
     concat (map (\<lambda>sp. filter is_mark (children sp)) sps') = live_marks (length ms) new \<and>
     elements_from n new"
  using assms
proof (induction sps arbitrary: j ms n)
  case Nil
  then show ?case by simp
next
  case (Cons sp sps)
  let ?t = "textContent (children sp)"
  have nomark: "filter is_mark (children sp) = []" using Cons.prems by simp
  have rest: "\<forall>sp \<in> set sps. filter is_mark (children sp) = []" using Cons.prems by simp
  show ?case
  proof (cases "first_occurrence term ?t")
    case None
    from Cons.IH [OF rest, of "Suc j" ms n] obtain sps' new where
      r: "search_spans term p (Suc j) sps (ms, n) = (sps', (ms @ new, n + 2 * length new))"
      and t: "map (\<lambda>sp. textContent (children sp)) sps' =
              map (\<lambda>sp. reparsed term (textContent (children sp))) sps"
      and i: "map match_info new =
       concat (map (spec_node_matches term p)
                 (enumerate (Suc j) (map (\<lambda>sp. textContent (children sp)) sps)))"
      and m: "concat (map (\<lambda>sp. filter is_mark (children sp)) sps') = live_marks (length ms) new"
      and e: "elements_from n new"
      by blast
    have "search_spans term p j (sp # sps) (ms, n) = (sp # sps', (ms @ new, n + 2 * length new))"
      using None r by (simp add: search_span_eq)
    moreover have "map match_info new =
       concat (map (spec_node_matches term p)
                 (enumerate j (map (\<lambda>sp. textContent (children sp)) (sp # sps))))"
      using None i by (simp add: spec_node_matches_def)
    moreover have "reparsed term ?t = ?t" using None by (simp add: reparsed_def)
    ultimately show ?thesis using t m e nomark by simp
  next
    case (Some i)
    let ?m = "\<lparr>element = n, pageIndex = p + 1, spanIndex = j,
               match_text = take (length term) (drop i ?t)\<rparr>"
    let ?cs = "(if html_text (take i ?t) \<noteq> [] then [TextNode (html_text (take i ?t))] else []) @
               [Mark (Suc n) search_highlight (length ms)
                  (html_text (take (length term) (drop i ?t)))] @
               (if html_text (drop (i + length term) ?t) \<noteq> []
                then [TextNode (html_text (drop (i + length term) ?t))] else [])"
    from Cons.IH [OF rest, of "Suc j" "ms @ [?m]" "Suc (Suc n)"] obtain sps' new where
      r: "search_spans term p (Suc j) sps (ms @ [?m], Suc (Suc n)) =
            (sps', ((ms @ [?m]) @ new, Suc (Suc n) + 2 * length new))"
      and t: "map (\<lambda>sp. textContent (children sp)) sps' =
              map (\<lambda>sp. reparsed term (textContent (children sp))) sps"
      and i: "map match_info new =
       concat (map (spec_node_matches term p)
                 (enumerate (Suc j) (map (\<lambda>sp. textContent (children sp)) sps)))"
      and m: "concat (map (\<lambda>sp. filter is_mark (children sp)) sps') =
                live_marks (length (ms @ [?m])) new"
      and e: "elements_from (Suc (Suc n)) new"
      by blast
    have 1: "search_spans term p j (sp # sps) (ms, n) =
          (sp\<lparr>children := ?cs\<rparr> # sps', (ms @ (?m # new), n + 2 * length (?m # new)))"
      using Some r by (simp add: search_span_eq)
    have 2: "textContent ?cs = reparsed term ?t"
      by (simp only: textContent_highlight reparsed_def Some option.simps)
    have 3: "map match_info (?m # new) =
       concat (map (spec_node_matches term p)
                 (enumerate j (map (\<lambda>sp. textContent (children sp)) (sp # sps))))"
      using Some i by (simp add: spec_node_matches_def match_info_def)
    have 4: "filter is_mark ?cs =
               [Mark (Suc n) search_highlight (length ms)
                  (html_text (take (length term) (drop i ?t)))]"
      by simp
    have 5: "elements_from n (?m # new)"
      using e by simp
    have 6: "concat (map (\<lambda>sp. filter is_mark (children sp)) (sp\<lparr>children := ?cs\<rparr> # sps')) =
               live_marks (length ms) (?m # new)"
      using m 4 by simp
    have 7: "map (\<lambda>sp. textContent (children sp)) (sp\<lparr>children := ?cs\<rparr> # sps') =
             map (\<lambda>sp. reparsed term (textContent (children sp))) (sp # sps)"
      using t 2 by simp
    from 1 7 3 6 5 show ?thesis by blast
  qed
qed

lemma marks_Cons:
  "marks (layer # layers) =
     concat (map (\<lambda>sp. filter is_mark (children sp)) layer) @ marks layers"
  by (simp add: marks_def all_nodes_def filter_concat comp_def)

lemma marks_Nil [simp]: "marks [] = []"
  by (simp add: marks_def all_nodes_def)

lemma marks_empty_layer:
  assumes "marks (layer # layers) = []"
  shows "\<forall>sp \<in> set layer. filter is_mark (children sp) = []" and "marks layers = []"
  using assms by (simp_all add: marks_Cons)

lemma search_layers_char:
  assumes "marks layers = []"
  shows "\<exists>layers' new.
     search_layers term p layers (ms, n) = (layers', (ms @ new, n + 2 * length new)) \<and>
     page_texts layers' = map (map (reparsed term)) (page_texts layers) \<and>
     map match_info new =
       concat (map (spec_page_matches term) (enumerate p (page_texts layers))) \<and>
     marks layers' = live_marks (length ms) new \<and>
     elements_from n new"
  using assms
proof (induction layers arbitrary: p ms n)
  case Nil
  then show ?case by (simp add: page_texts_def)
next
  case (Cons layer layers)
  note nm = marks_empty_layer [OF Cons.prems]
  from search_spans_char [OF nm(1), of "term" p 0 ms n] obtain layer' new1 where
    r1: "search_spans term p 0 layer (ms, n) = (layer', (ms @ new1, n + 2 * length new1))"
    and t1: "map (\<lambda>sp. textContent (children sp)) layer' =
             map (\<lambda>sp. reparsed term (textContent (children sp))) layer"
    and i1: "map match_info new1 =
       concat (map (spec_node_matches term p)
                 (enumerate 0 (map (\<lambda>sp. textContent (children sp)) layer)))"
    and m1: "concat (map (\<lambda>sp. filter is_mark (children sp)) layer') = live_marks (length ms) new1"
    and e1: "elements_from n new1"
    by blast
  from Cons.IH [OF nm(2), of "Suc p" "ms @ new1" "n + 2 * length new1"] obtain layers' new2 where
    r2: "search_layers term (Suc p) layers (ms @ new1, n + 2 * length new1) =
           (layers', ((ms @ new1) @ new2, n + 2 * length new1 + 2 * length new2))"
    and t2: "page_texts layers' = map (map (reparsed term)) (page_texts layers)"
    and i2: "map match_info new2 =
       concat (map (spec_page_matches term) (enumerate (Suc p) (page_texts layers)))"
    and m2: "marks layers' = live_marks (length (ms @ new1)) new2"
    and e2: "elements_from (n + 2 * length new1) new2"
    by blast
  have 1: "search_layers term p (layer # layers) (ms, n) =
             (layer' # layers', (ms @ (new1 @ new2), n + 2 * length (new1 @ new2)))"
    using r1 r2 by simp
  have 2: "page_texts (layer' # layers') = map (map (reparsed term)) (page_texts (layer # layers))"
    using t1 t2 by (simp add: page_texts_def comp_def)
  have 3: "map match_info (new1 @ new2) =
       concat (map (spec_page_matches term) (enumerate p (page_texts (layer # layers))))"
    using i1 i2 by (simp add: page_texts_def spec_page_matches_def)
  have 4: "marks (layer' # layers') = live_marks (length ms) (new1 @ new2)"
    using m1 m2 by (simp add: marks_Cons live_marks_append)
  have 5: "elements_from n (new1 @ new2)"
    using e1 e2 by (simp add: elements_from_append)
  from 1 2 3 4 5 show ?case by blast
qed

lemma elements_from_bounds:
  "elements_from n ms \<Longrightarrow> m \<in> set ms \<Longrightarrow> n \<le> element m \<and> even (element m - n)"
proof (induction ms arbitrary: n)
  case Nil
  then show ?case by simp
next
  case (Cons x ms)
  show ?case
  proof (cases "m = x")
    case True
    with Cons.prems show ?thesis by simp
  next
    case False
    with Cons.prems have "elements_from (Suc (Suc n)) ms" and "m \<in> set ms" by simp_all
    from Cons.IH [OF this] have a: "Suc (Suc n) \<le> element m"
      and b: "even (element m - Suc (Suc n))" by blast+
    from a have "element m - n = Suc (Suc (element m - Suc (Suc n)))" by simp
    with a b show ?thesis by simp
  qed
qed

lemma elements_from_distinct: "elements_from n ms \<Longrightarrow> distinct (map element ms)"
proof (induction ms arbitrary: n)
  case Nil
  then show ?case by simp
next
  case (Cons x ms)
  then have e: "element x = n" and r: "elements_from (Suc (Suc n)) ms" by simp_all
  have "element x \<notin> set (map element ms)"
  proof
    assume "element x \<in> set (map element ms)"
    then obtain m where "m \<in> set ms" and "element m = element x" by auto
    with elements_from_bounds [OF r] e show False by fastforce
  qed
  with Cons.IH [OF r] show ?case by simp
qed

section \<open>performSearch as a whole\<close>

lemma clearSearchHighlights_marks [simp]: "marks (document (clearSearchHighlights s)) = []"
  by (simp add: marks_empty_iff)

lemma is_mark_demote [simp]: "is_mark (demote n) = is_mark n"
  by (cases n) simp_all

lemma is_mark_promote [simp]: "is_mark (promote e n) = is_mark n"
  by (cases n) simp_all

lemma mark_info_demote [simp]: "mark_info (demote n) = mark_info n"
  by (cases n) (simp_all add: mark_info_def)

lemma mark_info_promote [simp]: "mark_info (promote e n) = mark_info n"
  by (cases n) (simp_all add: mark_info_def)

lemma node_text_demote [simp]: "node_text (demote n) = node_text n"
  by (cases n) simp_all

lemma node_text_promote [simp]: "node_text (promote e n) = node_text n"
  by (cases n) simp_all

lemma all_nodes_map_nodes: "all_nodes (map_nodes f doc) = map f (all_nodes doc)"
  by (simp add: all_nodes_def map_nodes_def map_concat comp_def)

lemma marks_map_nodes:
  assumes "\<And>n. is_mark (f n) = is_mark n" and "\<And>n. mark_info (f n) = mark_info n"
  shows "map mark_info (marks (map_nodes f doc)) = map mark_info (marks doc)"
proof -
  have "map mark_info (filter is_mark (map f xs)) = map mark_info (filter is_mark xs)" for xs
    by (induction xs) (simp_all add: assms)
  then show ?thesis by (simp add: marks_def all_nodes_map_nodes)
qed

lemma page_texts_map_nodes:
  assumes "\<And>n. node_text (f n) = node_text n"
  shows "page_texts (map_nodes f doc) = page_texts doc"
  by (simp add: page_texts_def map_nodes_def comp_def textContent_def assms)

lemma highlightCurrentMatch_marks [simp]:
  "map mark_info (marks (document (highlightCurrentMatch s))) = map mark_info (marks (document s))"
  by (simp add: highlightCurrentMatch_def Let_def marks_map_nodes split: option.splits)

lemma highlightCurrentMatch_texts [simp]:
  "page_texts (document (highlightCurrentMatch s)) = page_texts (document s)"
  by (simp add: highlightCurrentMatch_def Let_def page_texts_map_nodes split: option.splits)

lemma spec_matches_Nil [simp]: "spec_matches term [] = []"
  by (simp add: spec_matches_def)

lemma performSearch_char:
  assumes "pdfDoc s \<noteq> None" and "term \<noteq> []"
  shows "map match_info (searchMatches (performSearch term s)) =
           spec_matches term (page_texts (document s))"
    and "map mark_info (marks (document (performSearch term s))) =
           map mark_info (live_marks 0 (searchMatches (performSearch term s)))"
    and "page_texts (document (performSearch term s)) =
           map (map (reparsed term)) (page_texts (document s))"
    and "elements_from (next_node s) (searchMatches (performSearch term s))"
proof -
  let ?s1 = "(clearSearchHighlights s)\<lparr>searchMatches := [], currentSearchIndex := - 1\<rparr>"
  have nm: "marks (document ?s1) = []" by simp
  from search_layers_char [OF nm, of "term" 0 "[]" "next_node ?s1"] obtain layers' new where
    r: "search_layers term 0 (document ?s1) ([], next_node ?s1) =
          (layers', (new, next_node ?s1 + 2 * length new))"
    and t: "page_texts layers' = map (map (reparsed term)) (page_texts (document ?s1))"
    and i: "map match_info new =
       concat (map (spec_page_matches term) (enumerate 0 (page_texts (document ?s1))))"
    and m: "marks layers' = live_marks 0 new"
    and e: "elements_from (next_node ?s1) new"
    by auto
  have ms: "searchMatches (performSearch term s) = new"
    using assms r by (simp add: performSearch_def Let_def)
  have doc: "map mark_info (marks (document (performSearch term s))) = map mark_info (marks layers')"
    and tx: "page_texts (document (performSearch term s)) = page_texts layers'"
    using assms r by (auto simp add: performSearch_def Let_def)
  show "map match_info (searchMatches (performSearch term s)) =
           spec_matches term (page_texts (document s))"
    using ms i by (simp add: spec_matches_def)
  show "map mark_info (marks (document (performSearch term s))) =
           map mark_info (live_marks 0 (searchMatches (performSearch term s)))"
    using doc m ms by simp
  show "page_texts (document (performSearch term s)) =
           map (map (reparsed term)) (page_texts (document s))"
    using tx t by simp
  show "elements_from (next_node s) (searchMatches (performSearch term s))"
    using ms e by simp
qed

lemma performSearch_index:
  "currentSearchIndex (performSearch term s) =
     (if searchMatches (performSearch term s) = [] then - 1 else 0)"
  by (simp add: performSearch_def Let_def split: prod.splits)

lemma performSearch_unloaded:
  "pdfDoc s = None \<or> term = [] \<Longrightarrow> searchMatches (performSearch term s) = []"
  by (auto simp add: performSearch_def Let_def)

section \<open>The match list\<close>

lemma live_marks_info:
  "map mark_info (live_marks k ms) =
     map (\<lambda>(j, m). (Suc (element m), j, html_text (match_text m))) (enumerate k ms)"
  by (induction ms arbitrary: k) (simp_all add: mark_info_def)

lemma live_marks_searchMatch: "map searchMatch (live_marks k ms) = [k..<k + length ms]"
proof (induction ms arbitrary: k)
  case Nil
  then show ?case by simp
next
  case (Cons m ms)
  have "[k..<k + length (m # ms)] = k # [Suc k..<Suc k + length ms]"
    by (subst upt_conv_Cons) simp_all
  with Cons show ?case by simp
qed

lemma live_marks_text:
  "map mark_text (live_marks k ms) = map (\<lambda>m. html_text (match_text m)) ms"
  by (induction ms arbitrary: k) simp_all

lemma live_marks_id: "map mark_id (live_marks k ms) = map (\<lambda>m. Suc (element m)) ms"
  by (induction ms arbitrary: k) simp_all

lemma mark_info_projections:
  assumes "map mark_info xs = map mark_info ys"
  shows "map mark_id xs = map mark_id ys"
    and "map searchMatch xs = map searchMatch ys"
    and "map mark_text xs = map mark_text ys"
proof -
  have "map (fst \<circ> mark_info) xs = map (fst \<circ> mark_info) ys"
    and "map (fst \<circ> snd \<circ> mark_info) xs = map (fst \<circ> snd \<circ> mark_info) ys"
    and "map (snd \<circ> snd \<circ> mark_info) xs = map (snd \<circ> snd \<circ> mark_info) ys"
    using assms by (metis map_map)+
  then show "map mark_id xs = map mark_id ys"
    and "map searchMatch xs = map searchMatch ys"
    and "map mark_text xs = map mark_text ys"
    by (simp_all add: comp_def mark_info_def)
qed

lemma performSearch_live:
  assumes "pdfDoc s \<noteq> None" and "term \<noteq> []"
  shows "map searchMatch (marks (document (performSearch term s))) =
           [0..<length (searchMatches (performSearch term s))]"
    and "map mark_text (marks (document (performSearch term s))) =
           map (\<lambda>m. html_text (match_text m)) (searchMatches (performSearch term s))"
    and "highlights (document (performSearch term s)) =
           map (\<lambda>m. Suc (element m)) (searchMatches (performSearch term s))"
  using mark_info_projections [OF performSearch_char(2) [OF assms]]
  by (simp_all add: live_marks_searchMatch live_marks_text live_marks_id highlights_def
      mark_ids_def marks_def)





section \<open>The index invariant and the short search terms\<close>

lemma trim_no_break_space: "trim [CHR 0xA0, CHR ''a'', CHR 0xA0] = ''a''"
  by (simp add: trim_def isWhiteSpace_def)

lemma toLowerCase_latin1: "toLowerCase [CHR ''F'', CHR 0xC9, CHR 0xD7] = [CHR ''f'', CHR 0xE9, CHR 0xD7]"
  by code_simp

lemma first_occurrence_latin1:
  "first_occurrence [CHR ''F'', CHR 0xC9] [CHR ''c'', CHR ''a'', CHR ''f'', CHR 0xE9] = Some 2"
  by code_simp


lemma example_found_matches:
  "searchMatches example_found =
     [example_match 100 2 0 ''Cat'', example_match 102 2 1 ''cat'']"
  unfolding example_found_def by code_simp

lemma example_found_index: "currentSearchIndex example_found = 0"
  unfolding example_found_def by code_simp

lemma example_found_marks:
  "marks (document example_found) =
     [Mark 101 search_current 0 ''Cat'', Mark 103 search_highlight 1 ''cat'']"
  unfolding example_found_def by code_simp

lemma example_found_texts:
  "page_texts (document example_found) =
     [[''Hello'', ''World''], [''Cat nap'', ''concat cat'']]"
  unfolding example_found_def by code_simp

lemma example_found_input: "trim (searchInput_value example_found) = ''c''"
  unfolding example_found_def by code_simp


lemma search_inv_reset [simp]:
  "search_inv (s\<lparr>searchMatches := [], currentSearchIndex := - 1\<rparr>)"
  by (simp add: search_inv_def)

lemma search_inv_cong:
  "searchMatches s' = searchMatches s \<Longrightarrow> currentSearchIndex s' = currentSearchIndex s \<Longrightarrow>
   search_inv s' = search_inv s"
  by (simp add: search_inv_def)

lemma search_inv_updateSearchResults [simp]:
  "search_inv (updateSearchResults s) = search_inv s"
  by (rule search_inv_cong) simp_all

lemma search_inv_performSearch: "search_inv (performSearch term s)"
  by (simp add: search_inv_def performSearch_index)

lemma search_inv_handleSearch: "search_inv s \<Longrightarrow> search_inv (handleSearch s)"
  by (simp add: handleSearch_def Let_def search_inv_performSearch)

lemma search_inv_clearSearch: "search_inv (clearSearch s)"
  by (simp add: clearSearch_def)

lemma search_inv_next: "search_inv s \<Longrightarrow> search_inv (goToNextMatch s)"
proof (cases "searchMatches s = []")
  case True
  assume "search_inv s"
  with True show ?thesis by (simp add: goToNextMatch_def)
next
  case False
  assume "search_inv s"
  with False have r: "0 \<le> currentSearchIndex s" "currentSearchIndex s < int (length (searchMatches s))"
    by (simp_all add: search_inv_def)
  have "currentSearchIndex (goToNextMatch s) =
          (currentSearchIndex s + 1) mod int (length (searchMatches s))"
    using False r by (simp add: goToNextMatch_index js_rem_nonneg)
  moreover have "0 \<le> (currentSearchIndex s + 1) mod int (length (searchMatches s))"
    and "(currentSearchIndex s + 1) mod int (length (searchMatches s))
           < int (length (searchMatches s))"
    using False by simp_all
  ultimately have "0 \<le> currentSearchIndex (goToNextMatch s)"
    and "currentSearchIndex (goToNextMatch s) < int (length (searchMatches s))"
    by simp_all
  with False show ?thesis by (simp add: search_inv_def)
qed

lemma search_inv_previous: "search_inv s \<Longrightarrow> search_inv (goToPreviousMatch s)"
proof (cases "searchMatches s = []")
  case True
  assume "search_inv s"
  with True show ?thesis by (simp add: goToPreviousMatch_def)
next
  case False
  assume "search_inv s"
  with False have r: "0 \<le> currentSearchIndex s" "currentSearchIndex s < int (length (searchMatches s))"
    by (simp_all add: search_inv_def)
  with False show ?thesis by (auto simp add: search_inv_def goToPreviousMatch_index)
qed

text \<open>
  C9. The constructor establishes, and every operation of the search module
  (\<open>handleSearch\<close> with whatever the search box holds, \<open>performSearch\<close> with any term,
  \<open>goToNextMatch\<close>, \<open>goToPreviousMatch\<close>, \<open>clearSearch\<close>, \<open>clearSearchHighlights\<close>)
  preserves, the invariant \<open>search_inv\<close>: the current index is \<open>-1\<close> exactly when the
  match list is empty, and otherwise lies in \<open>[0, match count)\<close>.
\<close>

theorem search_index_invariant:
  "search_inv (constructor env) \<and>
   (search_inv s \<longrightarrow>
      search_inv (handleSearch s) \<and> search_inv (performSearch term s) \<and>
      search_inv (goToNextMatch s) \<and> search_inv (goToPreviousMatch s) \<and>
      search_inv (clearSearch s) \<and> search_inv (clearSearchHighlights s))"
  by (simp add: constructor_def search_inv_handleSearch search_inv_performSearch
      search_inv_next search_inv_previous search_inv_clearSearch
      search_inv_cong [of "clearSearchHighlights s" s])

theorem search_index_invariant_witness:
  "search_inv (constructor example_loaded) \<and> search_inv example_found \<and>
   search_inv (handleSearch example_found) \<and>
   search_inv (performSearch ''lo'' example_found) \<and>
   search_inv (goToNextMatch example_found) \<and>
   search_inv (goToPreviousMatch example_found) \<and>
   search_inv (clearSearch example_found) \<and>
   search_inv (clearSearchHighlights example_found) \<and>
   currentSearchIndex example_found = 0 \<and> length (searchMatches example_found) = 2"
proof -
  note m = example_found_matches and i = example_found_index
  have "search_inv example_found" by (simp add: search_inv_def m i)
  with search_index_invariant [of example_loaded example_found "''lo''"] m i
  show ?thesis by simp
qed

text \<open>
  C5. When the search term (the trimmed content of the search box, which is what
  \<open>handleSearch\<close> calls \<open>searchTerm\<close>) has length exactly 1, \<open>handleSearch\<close> changes
  nothing: the match list, the current index, the highlight spans and every other part
  of the state are as before.
\<close>

theorem handleSearch_one_character:
  assumes "length (trim (searchInput_value s)) = 1"
  shows "handleSearch s = s"
  using assms by (auto simp add: handleSearch_def Let_def)

theorem handleSearch_one_character_witness:
  "length (trim (searchInput_value example_found)) = 1
   \<and> handleSearch example_found = example_found
   \<and> searchMatches (handleSearch example_found) =
       [example_match 100 2 0 ''Cat'', example_match 102 2 1 ''cat'']
   \<and> currentSearchIndex (handleSearch example_found) = 0
   \<and> highlights (document (handleSearch example_found)) = [101, 103]"
proof -
  have t: "length (trim (searchInput_value example_found)) = 1"
    by (simp add: example_found_input)
  note m = example_found_matches and i = example_found_index
  have "map mark_id (marks (document example_found)) = [101, 103]"
    by (simp add: example_found_marks)
  then have h: "highlights (document example_found) = [101, 103]"
    by (simp add: marks_def highlights_def mark_ids_def)
  from handleSearch_one_character [OF t] t m i h show ?thesis by simp
qed

text \<open>
  C6. When the search term (the trimmed content of the search box) has length 0,
  \<open>handleSearch\<close> leaves an empty match list, no highlight span anywhere in the text
  layers, and the index \<open>-1\<close> that stands for "no current match"; the text of the
  overlay nodes is as before.
\<close>

theorem handleSearch_empty_term:
  assumes "length (trim (searchInput_value s)) = 0"
  shows "searchMatches (handleSearch s) = []
       \<and> marks (document (handleSearch s)) = []
       \<and> currentSearchIndex (handleSearch s) = - 1
       \<and> page_texts (document (handleSearch s)) = page_texts (document s)"
  using assms by (simp add: handleSearch_def Let_def)

theorem handleSearch_empty_term_witness:
  "length (trim (searchInput_value (example_found\<lparr>searchInput_value := [CHR 0xA0, CHR 0x20]\<rparr>))) = 0
   \<and> marks (document example_found) =
       [Mark 101 search_current 0 ''Cat'', Mark 103 search_highlight 1 ''cat'']
   \<and> searchMatches (handleSearch (example_found\<lparr>searchInput_value := [CHR 0xA0, CHR 0x20]\<rparr>)) = []
   \<and> marks (document (handleSearch (example_found\<lparr>searchInput_value := [CHR 0xA0, CHR 0x20]\<rparr>))) = []
   \<and> currentSearchIndex (handleSearch (example_found\<lparr>searchInput_value := [CHR 0xA0, CHR 0x20]\<rparr>)) = - 1
   \<and> page_texts (document (handleSearch (example_found\<lparr>searchInput_value := [CHR 0xA0, CHR 0x20]\<rparr>))) =
       [[''Hello'', ''World''], [''Cat nap'', ''concat cat'']]"
proof -
  have t: "length (trim (searchInput_value (example_found\<lparr>searchInput_value := [CHR 0xA0, CHR 0x20]\<rparr>))) = 0"
    by (simp add: trim_def isWhiteSpace_def)
  note k = example_found_marks and p = example_found_texts
  from handleSearch_empty_term [OF t] t k p show ?thesis by simp
qed

section \<open>Stored elements and live highlights\<close>

lemma filter_eq_upt: "i < n \<Longrightarrow> filter (\<lambda>k. k = i) [0..<n] = [i]"
proof (induction n)
  case 0
  then show ?case by simp
next
  case (Suc n)
  show ?case
  proof (cases "i = n")
    case True
    have "filter (\<lambda>k. k = n) [0..<n] = []" by (simp add: filter_empty_conv)
    with True show ?thesis by simp
  next
    case False
    with Suc show ?thesis by simp
  qed
qed

lemma performSearch_elements_detached:
  assumes "m \<in> set (searchMatches (performSearch term s))"
  shows "element m \<notin> set (highlights (document (performSearch term s)))"
proof (cases "pdfDoc s = None \<or> term = []")
  case True
  with assms show ?thesis by (simp add: performSearch_unloaded)
next
  case False
  then have l: "pdfDoc s \<noteq> None" and t: "term \<noteq> []" by simp_all
  let ?ms = "searchMatches (performSearch term s)"
  note par = elements_from_bounds [OF performSearch_char(4) [OF l t]]
  show ?thesis
  proof
    assume "element m \<in> set (highlights (document (performSearch term s)))"
    then obtain m' where m': "m' \<in> set ?ms" and e: "element m = Suc (element m')"
      by (auto simp add: performSearch_live(3) [OF l t])
    from par [OF assms] have 1: "next_node s \<le> element m" "even (element m - next_node s)"
      by blast+
    from par [OF m'] have 2: "next_node s \<le> element m'" "even (element m' - next_node s)"
      by blast+
    from e 2(1) have "element m - next_node s = Suc (element m' - next_node s)" by simp
    with 1(2) 2(2) show False by simp
  qed
qed

lemma performSearch_one_highlight_each:
  assumes "i < length (searchMatches (performSearch term s))"
  shows "length (filter (\<lambda>n. searchMatch n = i) (marks (document (performSearch term s)))) = 1"
proof -
  from assms have ne: "searchMatches (performSearch term s) \<noteq> []" by auto
  then have "\<not> (pdfDoc s = None \<or> term = [])"
    using performSearch_unloaded [of s "term"] by blast
  then have l: "pdfDoc s \<noteq> None" and t: "term \<noteq> []" by simp_all
  let ?ks = "marks (document (performSearch term s))"
  have "length (filter (\<lambda>n. searchMatch n = i) ?ks) =
          length (map searchMatch (filter ((\<lambda>k. k = i) \<circ> searchMatch) ?ks))"
    by (simp add: comp_def)
  also have "\<dots> = length (filter (\<lambda>k. k = i) (map searchMatch ?ks))"
    by (simp only: filter_map)
  also have "\<dots> = 1"
    using assms by (simp add: performSearch_live(1) [OF l t] filter_eq_upt)
  finally show ?thesis .
qed

lemma updateSearchResults_replace_elements:
  "updateSearchResults (replace_elements f s) = replace_elements f (updateSearchResults s)"
  by (simp add: updateSearchResults_def replace_elements_def)

lemma highlightCurrentMatch_replace_elements:
  "highlightCurrentMatch (replace_elements f s) = replace_elements f (highlightCurrentMatch s)"
  by (simp add: highlightCurrentMatch_def Let_def updateSearchResults_def replace_elements_def
      split: option.splits)

lemma goToPage_replace_elements:
  "goToPage p (replace_elements f s) = replace_elements f (goToPage p s)"
  by (simp add: goToPage_def replace_elements_def split: option.splits)

lemma scrollToCurrentMatch_replace_elements:
  "scrollToCurrentMatch (replace_elements f s) = replace_elements f (scrollToCurrentMatch s)"
  by (auto simp add: scrollToCurrentMatch_def Let_def goToPage_def replace_elements_def
      split: option.splits)


lemma find_filter: "find (\<lambda>x. Q x \<and> P x) xs = find P (filter Q xs)"
  by (induction xs) simp_all

lemma querySelector_match_marks:
  "querySelector_match doc k = map_option mark_id (find (\<lambda>n. searchMatch n = k) (marks doc))"
  by (simp add: querySelector_match_def marks_def find_filter)

lemma marks_map_nodes_eq:
  assumes "\<And>n. is_mark (f n) = is_mark n"
  shows "marks (map_nodes f doc) = map f (marks doc)"
proof -
  have "filter is_mark (map f xs) = map f (filter is_mark xs)" for xs
    by (induction xs) (simp_all add: assms)
  then show ?thesis by (simp add: marks_def all_nodes_map_nodes)
qed

lemma marks_are_marks: "n \<in> set (marks doc) \<Longrightarrow> is_mark n"
  by (simp add: marks_def)

lemma highlights_marks: "highlights doc = map mark_id (marks doc)"
  by (simp add: highlights_def marks_def mark_ids_def)

lemma querySelector_match_info:
  "querySelector_match doc k =
     map_option fst (find (\<lambda>x. fst (snd x) = k) (map mark_info (marks doc)))"
  by (simp add: querySelector_match_marks find_map option.map_comp comp_def mark_info_def)

lemma querySelector_match_cong:
  "map mark_info (marks d1) = map mark_info (marks d2) \<Longrightarrow>
   querySelector_match d1 k = querySelector_match d2 k"
  by (simp add: querySelector_match_info)

lemma find_by_searchMatch:
  assumes "map searchMatch ks = [0..<n]" and "i < n"
  shows "find (\<lambda>x. searchMatch x = i) ks = Some (ks ! i)"
proof -
  have len: "length ks = n" using assms(1) by (metis length_map length_upt diff_zero)
  have nth: "searchMatch (ks ! j) = j" if "j < n" for j
  proof -
    have "map searchMatch ks ! j = [0..<n] ! j" by (simp add: assms(1))
    with that len show ?thesis by simp
  qed
  have "i < length ks \<and> searchMatch (ks ! i) = i \<and> ks ! i = ks ! i \<and>
        (\<forall>j<i. \<not> searchMatch (ks ! j) = i)"
    using assms(2) len nth by auto
  then show ?thesis unfolding find_Some_iff by blast
qed

text \<open>A document whose highlight spans carry the match numbers \<open>0, ..., n - 1\<close> in
  order and are distinct objects: the selector for match \<open>i\<close> finds the \<open>i\<close>-th of them,
  and after the current highlight has been moved it alone has the class
  \<open>search-current\<close>.\<close>

lemma querySelector_match_nth:
  assumes "map searchMatch (marks doc) = [0..<n]" and "i < n"
  shows "querySelector_match doc i = Some (mark_id (marks doc ! i))"
  by (simp add: querySelector_match_marks find_by_searchMatch [OF assms])

lemma promote_demote_classes:
  assumes sm: "map searchMatch (marks doc) = [0..<n]"
    and d: "distinct (map mark_id (marks doc))" and i: "i < n"
  shows "map className
           (marks (map_nodes (promote (mark_id (marks doc ! i))) (map_nodes demote doc))) =
         map (\<lambda>k. if k = i then search_current else search_highlight) [0..<n]"
proof (rule nth_equalityI)
  let ?ks = "marks doc"
  have len: "length ?ks = n" using sm by (metis length_map length_upt diff_zero)
  have m: "marks (map_nodes (promote (mark_id (?ks ! i))) (map_nodes demote doc)) =
             map (promote (mark_id (?ks ! i))) (map demote ?ks)"
    by (simp add: marks_map_nodes_eq)
  show "length (map className
           (marks (map_nodes (promote (mark_id (?ks ! i))) (map_nodes demote doc)))) =
        length (map (\<lambda>k. if k = i then search_current else search_highlight) [0..<n])"
    by (simp add: m len)
  fix j
  assume "j < length (map className
           (marks (map_nodes (promote (mark_id (?ks ! i))) (map_nodes demote doc))))"
  then have j: "j < n" by (simp add: m len)
  have "?ks ! j \<in> set ?ks" using j len by simp
  then have "is_mark (?ks ! j)" by (rule marks_are_marks)
  then obtain a c k t where kj: "?ks ! j = Mark a c k t" by (cases "?ks ! j") simp_all
  have "(mark_id (?ks ! j) = mark_id (?ks ! i)) = (j = i)"
    using nth_eq_iff_index_eq [OF d, of j i] j i len by simp
  then have "className (promote (mark_id (?ks ! i)) (demote (?ks ! j))) =
          (if j = i then search_current else search_highlight)"
    by (simp add: kj)
  then show "map className
           (marks (map_nodes (promote (mark_id (?ks ! i))) (map_nodes demote doc))) ! j =
        map (\<lambda>k. if k = i then search_current else search_highlight) [0..<n] ! j"
    using j len by (simp add: m)
qed

lemma highlightCurrentMatch_classes:
  assumes "map searchMatch (marks (document t)) = [0..<length (searchMatches t)]"
    and "distinct (map mark_id (marks (document t)))"
    and "i < length (searchMatches t)"
  shows "map className (marks (document (highlightCurrentMatch (t\<lparr>currentSearchIndex := int i\<rparr>)))) =
         map (\<lambda>k. if k = i then search_current else search_highlight)
           [0..<length (searchMatches t)]"
proof -
  have "map mark_info (marks (map_nodes demote (document t))) = map mark_info (marks (document t))"
    by (simp add: marks_map_nodes)
  then have "querySelector_match (map_nodes demote (document t)) i =
               querySelector_match (document t) i"
    by (rule querySelector_match_cong)
  then have q: "querySelector_match (map_nodes demote (document t)) i =
          Some (mark_id (marks (document t) ! i))"
    by (simp only: querySelector_match_nth [OF assms(1,3)])
  have "document (highlightCurrentMatch (t\<lparr>currentSearchIndex := int i\<rparr>)) =
          map_nodes (promote (mark_id (marks (document t) ! i))) (map_nodes demote (document t))"
    using assms(3) by (simp add: highlightCurrentMatch_def Let_def q)
  then show ?thesis
    by (simp only: promote_demote_classes [OF assms])
qed

lemma scroll_after_highlight:
  assumes "map searchMatch (marks (document t)) = [0..<length (searchMatches t)]"
    and "i < length (searchMatches t)"
  shows "scroll_target
           (scrollToCurrentMatch (highlightCurrentMatch (t\<lparr>currentSearchIndex := int i\<rparr>))) =
         Some (mark_id (marks (document t) ! i))"
proof -
  let ?h = "highlightCurrentMatch (t\<lparr>currentSearchIndex := int i\<rparr>)"
  have "map mark_info (marks (document ?h)) = map mark_info (marks (document t))"
    by simp
  then have "querySelector_match (document ?h) i = querySelector_match (document t) i"
    by (rule querySelector_match_cong)
  then have q: "querySelector_match (document ?h) i = Some (mark_id (marks (document t) ! i))"
    by (simp only: querySelector_match_nth [OF assms])
  have c: "currentSearchIndex ?h = int i" and l: "searchMatches ?h = searchMatches t"
    by simp_all
  show ?thesis
    unfolding scrollToCurrentMatch_def Let_def c l
    using assms(2) by (simp add: q)
qed

lemma performSearch_wf:
  assumes "i < length (searchMatches (performSearch term s))"
  shows "map searchMatch (marks (document (performSearch term s))) =
           [0..<length (searchMatches (performSearch term s))]"
    and "distinct (map mark_id (marks (document (performSearch term s))))"
    and "mark_id (marks (document (performSearch term s)) ! i) =
           Suc (element (searchMatches (performSearch term s) ! i))"
proof -
  from assms have ne: "searchMatches (performSearch term s) \<noteq> []" by auto
  then have "\<not> (pdfDoc s = None \<or> term = [])"
    using performSearch_unloaded [of s "term"] by blast
  then have l: "pdfDoc s \<noteq> None" and t: "term \<noteq> []" by simp_all
  let ?ms = "searchMatches (performSearch term s)"
  show "map searchMatch (marks (document (performSearch term s))) = [0..<length ?ms]"
    by (rule performSearch_live(1) [OF l t])
  have ids: "map mark_id (marks (document (performSearch term s))) =
               map (\<lambda>m. Suc (element m)) ?ms"
    using performSearch_live(3) [OF l t] by (simp add: highlights_marks)
  have "distinct (map element ?ms)"
    by (rule elements_from_distinct [OF performSearch_char(4) [OF l t]])
  then have "distinct (map Suc (map element ?ms))"
    by (subst distinct_map) simp
  then show "distinct (map mark_id (marks (document (performSearch term s))))"
    by (simp add: ids comp_def)
  have "map mark_id (marks (document (performSearch term s))) ! i =
          map (\<lambda>m. Suc (element m)) ?ms ! i" by (simp add: ids)
  moreover have "length (marks (document (performSearch term s))) = length ?ms"
    using ids by (metis length_map)
  ultimately show "mark_id (marks (document (performSearch term s)) ! i) = Suc (element (?ms ! i))"
    using assms by simp
qed

lemma performSearch_located:
  assumes "i < length (searchMatches (performSearch term s))"
  shows "length (filter (\<lambda>n. searchMatch n = i) (marks (document (performSearch term s)))) = 1
       \<and> querySelector_match (document (performSearch term s)) i =
           Some (mark_id (marks (document (performSearch term s)) ! i))
       \<and> searchMatch (marks (document (performSearch term s)) ! i) = i
       \<and> mark_id (marks (document (performSearch term s)) ! i) \<noteq>
           element (searchMatches (performSearch term s) ! i)
       \<and> map className (marks (document (highlightCurrentMatch
             ((performSearch term s)\<lparr>currentSearchIndex := int i\<rparr>)))) =
           map (\<lambda>k. if k = i then search_current else search_highlight)
             [0..<length (searchMatches (performSearch term s))]
       \<and> scroll_target (scrollToCurrentMatch (highlightCurrentMatch
             ((performSearch term s)\<lparr>currentSearchIndex := int i\<rparr>))) =
           Some (mark_id (marks (document (performSearch term s)) ! i))"
proof -
  note wf = performSearch_wf [OF assms]
  let ?ks = "marks (document (performSearch term s))"
  have len: "length ?ks = length (searchMatches (performSearch term s))"
    using wf(1) by (metis length_map length_upt diff_zero)
  have "map searchMatch ?ks ! i = [0..<length (searchMatches (performSearch term s))] ! i"
    by (simp add: wf(1))
  then have sm: "searchMatch (?ks ! i) = i" using assms len by simp
  show ?thesis
    using performSearch_one_highlight_each [OF assms]
      querySelector_match_nth [OF wf(1) assms] sm wf(3)
      highlightCurrentMatch_classes [OF wf(1,2) assms]
      scroll_after_highlight [OF wf(1) assms]
    by simp
qed

lemma goToNextMatch_as_highlight:
  assumes "search_inv t" and "searchMatches t \<noteq> []"
  shows "nat (currentSearchIndex (goToNextMatch t)) < length (searchMatches t)"
    and "goToNextMatch t = scrollToCurrentMatch (highlightCurrentMatch
           (t\<lparr>currentSearchIndex := int (nat (currentSearchIndex (goToNextMatch t)))\<rparr>))"
proof -
  have inv: "search_inv (goToNextMatch t)" by (rule search_inv_next [OF assms(1)])
  with assms(2) have r: "0 \<le> currentSearchIndex (goToNextMatch t)"
    "currentSearchIndex (goToNextMatch t) < int (length (searchMatches t))"
    by (simp_all add: search_inv_def)
  then show "nat (currentSearchIndex (goToNextMatch t)) < length (searchMatches t)" by simp
  show "goToNextMatch t = scrollToCurrentMatch (highlightCurrentMatch
           (t\<lparr>currentSearchIndex := int (nat (currentSearchIndex (goToNextMatch t)))\<rparr>))"
  proof -
    have "int (nat (currentSearchIndex (goToNextMatch t))) = currentSearchIndex (goToNextMatch t)"
      using r(1) by simp
    then show ?thesis
      using assms(2) by (simp only: goToNextMatch_index [OF assms(2)]) (simp add: goToNextMatch_def)
  qed
qed

lemma goToPreviousMatch_as_highlight:
  assumes "search_inv t" and "searchMatches t \<noteq> []"
  shows "nat (currentSearchIndex (goToPreviousMatch t)) < length (searchMatches t)"
    and "goToPreviousMatch t = scrollToCurrentMatch (highlightCurrentMatch
           (t\<lparr>currentSearchIndex := int (nat (currentSearchIndex (goToPreviousMatch t)))\<rparr>))"
proof -
  have inv: "search_inv (goToPreviousMatch t)" by (rule search_inv_previous [OF assms(1)])
  with assms(2) have r: "0 \<le> currentSearchIndex (goToPreviousMatch t)"
    "currentSearchIndex (goToPreviousMatch t) < int (length (searchMatches t))"
    by (simp_all add: search_inv_def)
  then show "nat (currentSearchIndex (goToPreviousMatch t)) < length (searchMatches t)" by simp
  show "goToPreviousMatch t = scrollToCurrentMatch (highlightCurrentMatch
           (t\<lparr>currentSearchIndex := int (nat (currentSearchIndex (goToPreviousMatch t)))\<rparr>))"
  proof -
    have "int (nat (currentSearchIndex (goToPreviousMatch t))) = currentSearchIndex (goToPreviousMatch t)"
      using r(1) by simp
    then show ?thesis
      using assms(2) by (simp only: goToPreviousMatch_index [OF assms(2)]) (simp add: goToPreviousMatch_def)
  qed
qed

text \<open>
  C10. After \<open>performSearch\<close>, no stored \<open>element\<close> of a match is an element of the
  document (the span's content was replaced by a re-parsed copy after the reference was
  stored), and for each match number \<open>i\<close> the document holds exactly one highlight span
  whose \<open>data-search-match\<close> is \<open>i\<close>: the \<open>i\<close>-th highlight span of the document, an
  object other than the stored element of match \<open>i\<close>. It is the one the attribute
  selector finds. With \<open>i\<close> as the current index, \<open>highlightCurrentMatch\<close> leaves the
  class \<open>search-current\<close> on that span and on no other, and \<open>scrollToCurrentMatch\<close>
  hands that span to \<open>scrollIntoView\<close>; \<open>goToNextMatch\<close> and \<open>goToPreviousMatch\<close> do
  just this with the index they move to. Neither function reads the stored references:
  replacing them all by anything else changes nothing but those references.
\<close>

theorem stored_elements_detached:
  "(\<forall>m \<in> set (searchMatches (performSearch term s)).
      element m \<notin> set (highlights (document (performSearch term s))))
   \<and> (\<forall>i < length (searchMatches (performSearch term s)).
        length (filter (\<lambda>n. searchMatch n = i) (marks (document (performSearch term s)))) = 1
        \<and> querySelector_match (document (performSearch term s)) i =
            Some (mark_id (marks (document (performSearch term s)) ! i))
        \<and> searchMatch (marks (document (performSearch term s)) ! i) = i
        \<and> mark_id (marks (document (performSearch term s)) ! i) \<noteq>
            element (searchMatches (performSearch term s) ! i)
        \<and> map className (marks (document (highlightCurrentMatch
              ((performSearch term s)\<lparr>currentSearchIndex := int i\<rparr>)))) =
            map (\<lambda>k. if k = i then search_current else search_highlight)
              [0..<length (searchMatches (performSearch term s))]
        \<and> scroll_target (scrollToCurrentMatch (highlightCurrentMatch
              ((performSearch term s)\<lparr>currentSearchIndex := int i\<rparr>))) =
            Some (mark_id (marks (document (performSearch term s)) ! i)))
   \<and> (searchMatches (performSearch term s) \<noteq> [] \<longrightarrow>
        nat (currentSearchIndex (goToNextMatch (performSearch term s)))
          < length (searchMatches (performSearch term s))
        \<and> goToNextMatch (performSearch term s) =
            scrollToCurrentMatch (highlightCurrentMatch
              ((performSearch term s)\<lparr>currentSearchIndex :=
                 int (nat (currentSearchIndex (goToNextMatch (performSearch term s))))\<rparr>))
        \<and> nat (currentSearchIndex (goToPreviousMatch (performSearch term s)))
          < length (searchMatches (performSearch term s))
        \<and> goToPreviousMatch (performSearch term s) =
            scrollToCurrentMatch (highlightCurrentMatch
              ((performSearch term s)\<lparr>currentSearchIndex :=
                 int (nat (currentSearchIndex (goToPreviousMatch (performSearch term s))))\<rparr>)))
   \<and> highlightCurrentMatch (replace_elements f s) = replace_elements f (highlightCurrentMatch s)
   \<and> scrollToCurrentMatch (replace_elements f s) = replace_elements f (scrollToCurrentMatch s)"
  using performSearch_elements_detached [of _ "term" s]
    performSearch_located [of _ "term" s]
    goToNextMatch_as_highlight [OF search_inv_performSearch, of "term" s]
    goToPreviousMatch_as_highlight [OF search_inv_performSearch, of "term" s]
    highlightCurrentMatch_replace_elements [of f s]
    scrollToCurrentMatch_replace_elements [of f s]
  by blast

theorem stored_elements_detached_witness:
  "map element (searchMatches (performSearch ''cat'' example_loaded)) = [100, 102]
   \<and> highlights (document (performSearch ''cat'' example_loaded)) = [101, 103]
   \<and> 100 \<notin> set (highlights (document (performSearch ''cat'' example_loaded)))
   \<and> 102 \<notin> set (highlights (document (performSearch ''cat'' example_loaded)))
   \<and> length (filter (\<lambda>n. searchMatch n = 1)
         (marks (document (performSearch ''cat'' example_loaded)))) = 1
   \<and> querySelector_match (document (performSearch ''cat'' example_loaded)) 1 = Some 103
   \<and> map className (marks (document (highlightCurrentMatch
         ((performSearch ''cat'' example_loaded)\<lparr>currentSearchIndex := 1\<rparr>)))) =
       [search_highlight, search_current]
   \<and> scroll_target (scrollToCurrentMatch (highlightCurrentMatch
         ((performSearch ''cat'' example_loaded)\<lparr>currentSearchIndex := 1\<rparr>))) = Some 103
   \<and> scroll_target (goToNextMatch (performSearch ''cat'' example_loaded)) = Some 103"
proof -
  let ?P = "performSearch ''cat'' example_loaded"
  have m: "searchMatches ?P = [example_match 100 2 0 ''Cat'', example_match 102 2 1 ''cat'']"
    using example_found_matches by (simp add: example_found_def)
  have k: "marks (document ?P) =
             [Mark 101 search_current 0 ''Cat'', Mark 103 search_highlight 1 ''cat'']"
    using example_found_marks by (simp add: example_found_def)
  have h: "highlights (document ?P) = [101, 103]"
    by (simp add: highlights_marks k)
  have i: "currentSearchIndex ?P = 0"
    using example_found_index by (simp add: example_found_def)
  have u: "[0..<2] = [0, Suc 0]" by (simp add: upt_conv_Cons)
  note th = stored_elements_detached [of "''cat''" example_loaded]
  from th have a: "\<forall>m \<in> set (searchMatches ?P). element m \<notin> set (highlights (document ?P))"
    by blast
  have 1: "100 \<notin> set (highlights (document ?P))" "102 \<notin> set (highlights (document ?P))"
    using a m by (simp_all add: example_match_def)
  from th have "\<forall>i < length (searchMatches ?P).
        length (filter (\<lambda>n. searchMatch n = i) (marks (document ?P))) = 1
        \<and> querySelector_match (document ?P) i = Some (mark_id (marks (document ?P) ! i))
        \<and> map className (marks (document (highlightCurrentMatch
              (?P\<lparr>currentSearchIndex := int i\<rparr>)))) =
            map (\<lambda>k. if k = i then search_current else search_highlight)
              [0..<length (searchMatches ?P)]
        \<and> scroll_target (scrollToCurrentMatch (highlightCurrentMatch
              (?P\<lparr>currentSearchIndex := int i\<rparr>))) =
            Some (mark_id (marks (document ?P) ! i))"
    by blast
  then have "1 < length (searchMatches ?P) \<longrightarrow>
        length (filter (\<lambda>n. searchMatch n = 1) (marks (document ?P))) = 1
        \<and> querySelector_match (document ?P) 1 = Some (mark_id (marks (document ?P) ! 1))
        \<and> map className (marks (document (highlightCurrentMatch
              (?P\<lparr>currentSearchIndex := int 1\<rparr>)))) =
            map (\<lambda>k. if k = 1 then search_current else search_highlight)
              [0..<length (searchMatches ?P)]
        \<and> scroll_target (scrollToCurrentMatch (highlightCurrentMatch
              (?P\<lparr>currentSearchIndex := int 1\<rparr>))) =
            Some (mark_id (marks (document ?P) ! 1))"
    by blast
  then have 2: "length (filter (\<lambda>n. searchMatch n = 1) (marks (document ?P))) = 1"
    and 3: "querySelector_match (document ?P) 1 = Some 103"
    and 4: "map className (marks (document (highlightCurrentMatch
              (?P\<lparr>currentSearchIndex := 1\<rparr>)))) = [search_highlight, search_current]"
    and 5: "scroll_target (scrollToCurrentMatch (highlightCurrentMatch
              (?P\<lparr>currentSearchIndex := 1\<rparr>))) = Some 103"
    by (simp_all add: m k u)
  from th have "searchMatches ?P \<noteq> [] \<longrightarrow>
        goToNextMatch ?P = scrollToCurrentMatch (highlightCurrentMatch
              (?P\<lparr>currentSearchIndex := int (nat (currentSearchIndex (goToNextMatch ?P)))\<rparr>))"
    by blast
  moreover have "currentSearchIndex (goToNextMatch ?P) = 1"
    by (simp add: goToNextMatch_index m i js_rem_def)
  ultimately have 6: "scroll_target (goToNextMatch ?P) = Some 103"
    using 5 by (simp add: m)
  from m h 1 2 3 4 5 6 show ?thesis by (simp add: example_match_def)
qed

section \<open>Unwrapping a highlighted span\<close>








section \<open>Highlighting a pristine overlay\<close>







section \<open>Search followed by clear\<close>







lemma document_clearSearch: "document (clearSearch s) = document (clearSearchHighlights s)"
  by (simp add: clearSearch_def clearSearchHighlights_def)

lemma clearSearch_texts [simp]:
  "page_texts (document (clearSearch s)) = page_texts (document s)"
  by (simp add: document_clearSearch)

lemma clearSearch_marks [simp]: "marks (document (clearSearch s)) = []"
  by (simp add: document_clearSearch)








section \<open>The selection tracker\<close>

lemma selection_events_snoc:
  "selection_events (sels @ [sel]) v = selection_settled sel (selection_events sels v)"
  by (simp add: selection_events_def)

lemma selection_settled_last:
  "lastSelectedText (selection_settled sel v) =
     (if getSelectedText sel = [] then lastSelectedText v else Some (getSelectedText sel))"
  by (simp add: selection_settled_def Let_def hideContextMenu_def)

lemma selection_settled_indicator:
  "selectionCount_textContent (selection_settled sel v) = length (getSelectedText sel)"
  "selectionInfo_display (selection_settled sel v) =
     (if getSelectedText sel = [] then ''none'' else ''block'')"
  by (simp_all add: selection_settled_def Let_def hideContextMenu_def)

lemma case_last_snoc:
  "(case xs @ [y] of [] \<Rightarrow> a | t # ts \<Rightarrow> Some (last (t # ts))) = Some y"
proof (cases xs)
  case Nil
  then show ?thesis by simp
next
  case (Cons x xs')
  have "last (x # xs' @ [y]) = y" by (metis append_Cons last_snoc)
  with Cons show ?thesis by simp
qed

lemma selection_events_last:
  "lastSelectedText (selection_events sels v) =
     (case filter (\<lambda>t. t \<noteq> []) (map getSelectedText sels) of
        [] \<Rightarrow> lastSelectedText v
      | t # ts \<Rightarrow> Some (last (t # ts)))"
proof (induction sels rule: rev_induct)
  case Nil
  then show ?case by (simp add: selection_events_def)
next
  case (snoc sel sels)
  show ?case
  proof (cases "getSelectedText sel = []")
    case True
    with snoc show ?thesis by (simp add: selection_events_snoc selection_settled_last)
  next
    case False
    then show ?thesis
      by (simp add: selection_events_snoc selection_settled_last case_last_snoc)
  qed
qed

text \<open>
  C7. After any sequence of selection-change events has settled, \<open>lastSelectedText\<close> is
  the most recent non-empty selected text of the sequence (or its old value when there
  was none): a callback that finds the selection empty leaves it unchanged. The counter
  and the visibility of the selection info box are those of the last selection alone.
  The selected text is what \<open>getSelectedText\<close> returns, the trimmed selection.
\<close>

theorem lastSelectedText_retained:
  "lastSelectedText (selection_events sels v) =
     (case filter (\<lambda>t. t \<noteq> []) (map getSelectedText sels) of
        [] \<Rightarrow> lastSelectedText v
      | t # ts \<Rightarrow> Some (last (t # ts)))
   \<and> (getSelectedText sel = [] \<longrightarrow>
        lastSelectedText (selection_settled sel v) = lastSelectedText v)
   \<and> (sels \<noteq> [] \<longrightarrow>
        selectionCount_textContent (selection_events sels v) =
          length (getSelectedText (last sels)) \<and>
        selectionInfo_display (selection_events sels v) =
          (if getSelectedText (last sels) = [] then ''none'' else ''block''))"
proof -
  have "sels \<noteq> [] \<longrightarrow>
        selectionCount_textContent (selection_events sels v) =
          length (getSelectedText (last sels)) \<and>
        selectionInfo_display (selection_events sels v) =
          (if getSelectedText (last sels) = [] then ''none'' else ''block'')"
    by (cases sels rule: rev_cases)
       (simp_all add: selection_events_snoc selection_settled_indicator)
  then show ?thesis
    by (simp add: selection_events_last selection_settled_last)
qed

theorem lastSelectedText_retained_witness:
  "lastSelectedText (selection_events [''Hello'', [CHR 0xA0], '' wor '', '''']
      \<lparr>lastSelectedText = None, selectionCount_textContent = 0,
       selectionInfo_display = ''none'', contextMenu_display = ''none''\<rparr>) = Some ''wor''
   \<and> getSelectedText '''' = []
   \<and> lastSelectedText (selection_settled ''''
        \<lparr>lastSelectedText = Some ''wor'', selectionCount_textContent = 3,
         selectionInfo_display = ''block'', contextMenu_display = ''none''\<rparr>) = Some ''wor''
   \<and> selectionCount_textContent (selection_events [''Hello'', [CHR 0xA0], '' wor '', '''']
      \<lparr>lastSelectedText = None, selectionCount_textContent = 0,
       selectionInfo_display = ''none'', contextMenu_display = ''none''\<rparr>) = 0
   \<and> selectionInfo_display (selection_events [''Hello'', [CHR 0xA0], '' wor '', '''']
      \<lparr>lastSelectedText = None, selectionCount_textContent = 0,
       selectionInfo_display = ''none'', contextMenu_display = ''none''\<rparr>) = ''none''"
proof -
  have g: "getSelectedText ''Hello'' = ''Hello''" "getSelectedText [CHR 0xA0] = []"
    "getSelectedText '' wor '' = ''wor''" "getSelectedText '''' = []"
    by (simp_all add: getSelectedText_def trim_def isWhiteSpace_def)
  show ?thesis
    using lastSelectedText_retained [of "[''Hello'', [CHR 0xA0], '' wor '', '''']"
      "\<lparr>lastSelectedText = None, selectionCount_textContent = 0,
       selectionInfo_display = ''none'', contextMenu_display = ''none''\<rparr>" "''''"]
      lastSelectedText_retained [of "[]"
      "\<lparr>lastSelectedText = Some ''wor'', selectionCount_textContent = 3,
         selectionInfo_display = ''block'', contextMenu_display = ''none''\<rparr>" "''''"]
    by (simp add: g)
qed

section \<open>The loop of the overlay builder\<close>

lemma create_span_Inl_iff: "(\<exists>e. create_span vp it = Inl e) \<longleftrightarrow> transform it = None"
  by (simp add: create_span_def Util_transform_def Let_def split: option.splits)

lemma create_span_missing: "transform it = None \<Longrightarrow> create_span vp it = Inl TypeError"
  by (simp add: create_span_def Util_transform_def)

lemma create_span_present:
  "transform it \<noteq> None \<Longrightarrow> \<exists>sp. create_span vp it = Inr sp \<and> children sp = text_children (str it)"
  by (auto simp add: create_span_def Util_transform_def Let_def)

lemma build_loop_children:
  "layer_children (build_loop vp items c) = layer_children c @ List.map_filter (span_of vp) items"
proof (induction items arbitrary: c)
  case Nil
  then show ?case by simp
next
  case (Cons it items)
  show ?case
    by (cases "create_span vp it") (simp_all add: Cons.IH span_of_def)
qed

lemma build_loop_warn:
  "console_warn (build_loop vp items c) =
     console_warn c @
     map (Pair TypeError) (filter (\<lambda>it. \<not> blank it \<and> transform it = None) items)"
proof (induction items arbitrary: c)
  case Nil
  then show ?case by simp
next
  case (Cons it items)
  show ?case
  proof (cases "transform it")
    case None
    then show ?thesis by (simp add: Cons.IH create_span_missing)
  next
    case (Some m)
    then obtain sp where "create_span vp it = Inr sp"
      using create_span_present [of it vp] by auto
    with Some show ?thesis by (simp add: Cons.IH)
  qed
qed

lemma build_loop_size [simp]:
  "layer_width (build_loop vp items c) = layer_width c"
  "layer_height (build_loop vp items c) = layer_height c"
  by (induction items arbitrary: c) (simp_all split: sum.splits)

lemma map_filter_span_of_length:
  "length (List.map_filter (span_of vp) items) =
     length (filter (\<lambda>it. \<not> blank it \<and> transform it \<noteq> None) items)"
proof (induction items)
  case Nil
  then show ?case by simp
next
  case (Cons it items)
  show ?case
  proof (cases "transform it")
    case None
    with Cons.IH show ?thesis by (simp add: span_of_def create_span_missing)
  next
    case (Some m)
    then obtain sp where "create_span vp it = Inr sp"
      using create_span_present [of it vp] by auto
    with Some Cons.IH show ?thesis by (simp add: span_of_def)
  qed
qed

lemma blank_text_children:
  "\<not> blank it \<Longrightarrow> text_children (str it) = [TextNode (the (str it))]"
  by (auto simp add: blank_def text_children_def split: option.splits)

lemma map_filter_span_of_texts:
  "map children (List.map_filter (span_of vp) items) =
     map (\<lambda>it. [TextNode (the (str it))])
       (filter (\<lambda>it. \<not> blank it \<and> transform it \<noteq> None) items)"
proof (induction items)
  case Nil
  then show ?case by simp
next
  case (Cons it items)
  show ?case
  proof (cases "transform it")
    case None
    with Cons.IH show ?thesis by (simp add: span_of_def create_span_missing)
  next
    case (Some m)
    then obtain sp where "create_span vp it = Inr sp" "children sp = text_children (str it)"
      using create_span_present [of it vp] by auto
    with Some Cons.IH show ?thesis
      by (simp add: span_of_def blank_text_children)
  qed
qed

section \<open>Font size and spans of the overlay builder\<close>

lemma blank_no_break_space: "blank (example_item [CHR 0xA0, CHR 0x20] m)"
  by (simp add: blank_def example_item_def trim_def isWhiteSpace_def)

lemma createTextLayer_Some:
  "createTextLayer (Some items) c vp =
     build_loop vp items
       (c\<lparr>layer_children := [], layer_width := vp_width vp, layer_height := vp_height vp\<rparr>)"
  by (simp add: createTextLayer_def)

lemma createTextLayer_children:
  "layer_children (createTextLayer (Some items) c vp) = List.map_filter (span_of vp) items"
  by (simp add: createTextLayer_Some build_loop_children)

lemma createTextLayer_texts:
  "map children (layer_children (createTextLayer (Some items) c vp)) =
     map (\<lambda>it. [TextNode (the (str it))])
       (filter (\<lambda>it. \<not> blank it \<and> transform it \<noteq> None) items)"
  by (simp add: createTextLayer_children map_filter_span_of_texts)

lemma createTextLayer_warn:
  "console_warn (createTextLayer (Some items) c vp) =
     console_warn c @
     map (Pair TypeError) (filter (\<lambda>it. \<not> blank it \<and> transform it = None) items)"
  by (simp add: createTextLayer_Some build_loop_warn)

lemma sqrt_25: "sqrt 25 = 5"
proof -
  have "sqrt 25 = sqrt (5\<^sup>2)" by simp
  also have "\<dots> = 5" by (simp only: real_sqrt_abs)
  finally show ?thesis .
qed

lemma sqrt_16: "sqrt 16 = 4"
proof -
  have "sqrt 16 = sqrt (4\<^sup>2)" by simp
  also have "\<dots> = 4" by (simp only: real_sqrt_abs)
  finally show ?thesis .
qed

lemma sqrt_144: "sqrt 144 = 12"
proof -
  have "sqrt 144 = sqrt (12\<^sup>2)" by simp
  also have "\<dots> = 12" by (simp only: real_sqrt_abs)
  finally show ?thesis .
qed

lemma Util_transform_wellformed:
  "Util_transform [a1, b1, c1, d1, e1, f1] (Some [a2, b2, c2, d2, e2, f2]) =
     Inr [Some (a1 * a2 + c1 * b2), Some (b1 * a2 + d1 * b2),
          Some (a1 * c2 + c1 * d2), Some (b1 * c2 + d1 * d2),
          Some (a1 * e2 + c1 * f2 + e1), Some (b1 * e2 + d1 * f2 + f1)]"
  by (simp add: Util_transform_def elem_at_def jadd_def jmul_def)

text \<open>
  C1 (as amended). Whenever the composition of the viewport transform with the item's
  transform is a matrix \<open>[a, b, c, d, e, f]\<close> of six numbers, the \<open>fontSize\<close> of the span
  built for the item is \<open>sqrt(c\<^sup>2 + d\<^sup>2)\<close>, the length of the image \<open>(c, d)\<close> of the
  vertical unit vector (the entries at indices 2 and 3), and it is never negative.
\<close>

theorem fontSize_is_norm_of_c_d:
  assumes "Util_transform (vp_transform vp) (transform it) =
             Inr [Some a, Some b, Some c, Some d, Some e, Some f]"
  shows "map_sum id style_fontSize (create_span vp it) = Inr (Some (sqrt (c\<^sup>2 + d\<^sup>2)))
       \<and> 0 \<le> sqrt (c\<^sup>2 + d\<^sup>2)"
proof -
  have "\<not> c * c + d * d < 0" by (simp add: not_less)
  then show ?thesis
    using assms
    by (simp add: create_span_def Let_def num_at_def jmul_def jadd_def Math_sqrt_def
        power2_eq_square)
qed

theorem fontSize_is_norm_of_c_d_witness:
  "Util_transform (vp_transform example_viewport)
     (transform (example_item ''Hello'' (Some [12, 0, 0, 12, 50, 100]))) =
     Inr [Some 12, Some 0, Some 0, Some 12, Some 50, Some 100]
   \<and> map_sum id style_fontSize
       (create_span example_viewport (example_item ''Hello'' (Some [12, 0, 0, 12, 50, 100]))) =
     Inr (Some 12)"
proof -
  have u: "Util_transform (vp_transform example_viewport)
     (transform (example_item ''Hello'' (Some [12, 0, 0, 12, 50, 100]))) =
     Inr [Some 12, Some 0, Some 0, Some 12, Some 50, Some 100]"
    by (simp add: example_viewport_def example_item_def Util_transform_wellformed)
  from fontSize_is_norm_of_c_d [OF u] u show ?thesis by (simp add: sqrt_144)
qed

text \<open>The formula of C1 as the specification words it, \<open>sqrt(b\<^sup>2 + d\<^sup>2)\<close>, gives another
  value on a sheared item: here the span gets font size 5, the formula gives 4.\<close>

theorem fontSize_differs_from_b_d:
  "Util_transform (vp_transform example_viewport)
     (transform (example_item ''World'' (Some [1, 0, 3, 4, 0, 0]))) =
     Inr [Some 1, Some 0, Some 3, Some 4, Some 0, Some 0]
   \<and> map_sum id style_fontSize
       (create_span example_viewport (example_item ''World'' (Some [1, 0, 3, 4, 0, 0]))) =
     Inr (Some 5)
   \<and> spec_fontSize [1, 0, 3, 4, 0, 0] = 4"
proof -
  have u: "Util_transform (vp_transform example_viewport)
     (transform (example_item ''World'' (Some [1, 0, 3, 4, 0, 0]))) =
     Inr [Some 1, Some 0, Some 3, Some 4, Some 0, Some 0]"
    by (simp add: example_viewport_def example_item_def Util_transform_wellformed)
  have f: "map_sum id style_fontSize
       (create_span example_viewport (example_item ''World'' (Some [1, 0, 3, 4, 0, 0]))) =
     Inr (Some 5)"
    using u
    by (simp add: create_span_def Let_def num_at_def jmul_def jadd_def Math_sqrt_def sqrt_25)
  have s: "spec_fontSize [1, 0, 3, 4, 0, 0] = 4"
    by (simp add: spec_fontSize_def sqrt_16)
  from u f s show ?thesis by simp
qed

text \<open>
  C8 (as amended). \<open>createTextLayer\<close> returns for every list of text items. The spans of
  the layer are, in order, one for each item whose text is not blank (neither missing,
  empty, nor white space only) and whose transform is present, each holding the item's
  text; an item that is not blank and has no transform raises inside the \<open>try\<close>, is
  written to the console and is the only one passed over on that account.
\<close>

theorem createTextLayer_spans:
  "layer_children (createTextLayer (Some items) container vp) =
     List.map_filter (span_of vp) items
   \<and> map children (layer_children (createTextLayer (Some items) container vp)) =
       map (\<lambda>it. [TextNode (the (str it))])
         (filter (\<lambda>it. \<not> blank it \<and> transform it \<noteq> None) items)
   \<and> console_warn (createTextLayer (Some items) container vp) =
       console_warn container @
       map (Pair TypeError) (filter (\<lambda>it. \<not> blank it \<and> transform it = None) items)"
  using createTextLayer_children [of items container vp]
    createTextLayer_texts [of items container vp]
    createTextLayer_warn [of items container vp]
  by blast

theorem createTextLayer_spans_witness:
  "map children (layer_children (createTextLayer
      (Some [example_item ''Hello'' (Some [12, 0, 0, 12, 50, 100]),
             example_item ''A'' None,
             example_item ''World'' (Some [12, 0, 0, 12, 90, 100])])
      example_container example_viewport)) = [[TextNode ''Hello''], [TextNode ''World'']]
   \<and> console_warn (createTextLayer
      (Some [example_item ''Hello'' (Some [12, 0, 0, 12, 50, 100]),
             example_item ''A'' None,
             example_item ''World'' (Some [12, 0, 0, 12, 90, 100])])
      example_container example_viewport) = [(TypeError, example_item ''A'' None)]"
proof -
  have b: "\<not> blank (example_item ''Hello'' m)" "\<not> blank (example_item ''A'' m)"
    "\<not> blank (example_item ''World'' m)" for m
    by (simp_all add: blank_def example_item_def trim_def isWhiteSpace_def)
  have t: "transform (example_item x m) = m" "str (example_item x m) = Some x" for x m
    by (simp_all add: example_item_def)
  have c: "console_warn example_container = []" by (simp add: example_container_def)
  note th = createTextLayer_spans [of "[example_item ''Hello'' (Some [12, 0, 0, 12, 50, 100]),
             example_item ''A'' None,
             example_item ''World'' (Some [12, 0, 0, 12, 90, 100])]"
      example_container example_viewport]
  from th [THEN conjunct2, THEN conjunct1] th [THEN conjunct2, THEN conjunct2]
  show ?thesis by (simp add: b t c)
qed

text \<open>Against C8 as the specification words it: a text item holding one space is not
  empty and has a well-formed transform, yet gets no span and no log entry; and an item
  whose transform array is too short is neither passed over nor logged.\<close>

theorem createTextLayer_blank_item_skipped:
  "nonempty_item (example_item '' '' (Some [12, 0, 0, 12, 50, 100]))
   \<and> layer_children (createTextLayer
        (Some [example_item '' '' (Some [12, 0, 0, 12, 50, 100])])
        example_container example_viewport) = []
   \<and> console_warn (createTextLayer
        (Some [example_item '' '' (Some [12, 0, 0, 12, 50, 100])])
        example_container example_viewport) = []
   \<and> map children (layer_children (createTextLayer
        (Some [example_item ''B'' (Some [1, 0])])
        example_container example_viewport)) = [[TextNode ''B'']]
   \<and> console_warn (createTextLayer
        (Some [example_item ''B'' (Some [1, 0])])
        example_container example_viewport) = []"
proof -
  have b: "blank (example_item '' '' m)" "\<not> blank (example_item ''B'' m)" for m
    by (simp_all add: blank_def example_item_def trim_def isWhiteSpace_def)
  have n: "nonempty_item (example_item '' '' m)" for m
    by (simp add: nonempty_item_def example_item_def)
  have t: "transform (example_item x m) = m" "str (example_item x m) = Some x" for x m
    by (simp_all add: example_item_def)
  have c: "console_warn example_container = []" by (simp add: example_container_def)
  have 1: "layer_children (createTextLayer
        (Some [example_item '' '' (Some [12, 0, 0, 12, 50, 100])])
        example_container example_viewport) = []"
    by (simp add: createTextLayer_children span_of_def b)
  have 2: "console_warn (createTextLayer
        (Some [example_item '' '' (Some [12, 0, 0, 12, 50, 100])])
        example_container example_viewport) = []"
    by (simp add: createTextLayer_warn b c)
  have 3: "map children (layer_children (createTextLayer
        (Some [example_item ''B'' (Some [1, 0])])
        example_container example_viewport)) = [[TextNode ''B'']]"
    by (simp add: createTextLayer_texts b t)
  have 4: "console_warn (createTextLayer
        (Some [example_item ''B'' (Some [1, 0])])
        example_container example_viewport) = []"
    by (simp add: createTextLayer_warn b t c)
  from n 1 2 3 4 show ?thesis by simp
qed

end
